theory Spec2Isabelle
  imports Complex_Main
begin

section \<open>Arrays and the library operations the notebook calls\<close>

text \<open>
  The notebook \<^verbatim>\<open>tutorial/1.6.xarray-and-dask.ipynb\<close> defines three functions on
  numpy arrays, all working along the last axis:
  \<^verbatim>\<open>
  def covariance_gufunc(x, y):
      return ((x - x.mean(axis=-1, keepdims=True))
              * (y - y.mean(axis=-1, keepdims=True))).mean(axis=-1)

  def pearson_correlation_gufunc(x, y):
      return covariance_gufunc(x, y) / (x.std(axis=-1) * y.std(axis=-1))

  def spearman_correlation_gufunc(x, y):
      x_ranks = bottleneck.rankdata(x, axis=-1)
      y_ranks = bottleneck.rankdata(y, axis=-1)
      return pearson_correlation_gufunc(x_ranks, y_ranks)
  \<close>
  An array entry is a number of numpy's arithmetic: a finite value or one of the three
  special values, which a reduction over an empty axis, an overflow and a division by zero
  produce (numpy warns and does not raise; the notebook silences the warnings). Signed zeros
  are not distinguished.

  The functions are given twice. First in exact arithmetic, where a finite entry is a real
  number and no operation rounds: this is the arithmetic of the statements that are made
  over exact arithmetic. Then over the arithmetic of the library, which is a parameter of
  the functions and has IEEE binary64 as an instance: there a result is rounded, becomes an
  infinity when it is too large and zero when it is too small.
\<close>

datatype npfloat = Fin real | PInf | NInf | NaN

text \<open>
  An array is the list of its lanes along the last axis: the leading axes are taken in
  C order as one axis, so a lane is one 1-d slice \<^verbatim>\<open>x[i, ..., :]\<close>. A reduction with
  \<^verbatim>\<open>axis=-1\<close> leaves one entry for each lane.
\<close>

type_synonym 'a ndarray = "'a list list"

datatype error = ValueError

subsection \<open>Exact arithmetic\<close>

text \<open>
  The operations on finite entries are those of the real numbers; on the special values
  they are those of IEEE arithmetic.
\<close>

fun np_negative :: "npfloat \<Rightarrow> npfloat" where
  "np_negative (Fin a) = Fin (- a)"
| "np_negative PInf = NInf"
| "np_negative NInf = PInf"
| "np_negative NaN = NaN"

fun np_add :: "npfloat \<Rightarrow> npfloat \<Rightarrow> npfloat" where
  "np_add (Fin a) (Fin b) = Fin (a + b)"
| "np_add NaN _ = NaN"
| "np_add _ NaN = NaN"
| "np_add PInf NInf = NaN"
| "np_add NInf PInf = NaN"
| "np_add PInf _ = PInf"
| "np_add _ PInf = PInf"
| "np_add NInf _ = NInf"
| "np_add _ NInf = NInf"

definition np_subtract :: "npfloat \<Rightarrow> npfloat \<Rightarrow> npfloat" where
  "np_subtract a b = np_add a (np_negative b)"

fun np_multiply :: "npfloat \<Rightarrow> npfloat \<Rightarrow> npfloat" where
  "np_multiply (Fin a) (Fin b) = Fin (a * b)"
| "np_multiply NaN _ = NaN"
| "np_multiply _ NaN = NaN"
| "np_multiply (Fin a) b = (if a = 0 then NaN else if 0 < a then b else np_negative b)"
| "np_multiply a (Fin b) = (if b = 0 then NaN else if 0 < b then a else np_negative a)"
| "np_multiply PInf b = b"
| "np_multiply NInf b = np_negative b"

text \<open>
  True division. A zero divisor does not raise: \<^verbatim>\<open>0/0\<close> is \<^verbatim>\<open>nan\<close> and
  \<^verbatim>\<open>a/0\<close> is an infinity with the sign of \<^verbatim>\<open>a\<close>.
\<close>

fun np_true_divide :: "npfloat \<Rightarrow> npfloat \<Rightarrow> npfloat" where
  "np_true_divide (Fin a) (Fin b) =
     (if b \<noteq> 0 then Fin (a / b)
      else if a = 0 then NaN else if 0 < a then PInf else NInf)"
| "np_true_divide NaN _ = NaN"
| "np_true_divide _ NaN = NaN"
| "np_true_divide (Fin a) _ = Fin 0"
| "np_true_divide a (Fin b) = (if 0 \<le> b then a else np_negative a)"
| "np_true_divide _ _ = NaN"

fun np_sqrt :: "npfloat \<Rightarrow> npfloat" where
  "np_sqrt (Fin a) = (if a < 0 then NaN else Fin (sqrt a))"
| "np_sqrt PInf = PInf"
| "np_sqrt NInf = NaN"
| "np_sqrt NaN = NaN"

text \<open>Comparison: every comparison with \<^verbatim>\<open>nan\<close> is false.\<close>

fun np_less :: "npfloat \<Rightarrow> npfloat \<Rightarrow> bool" where
  "np_less (Fin a) (Fin b) = (a < b)"
| "np_less NaN _ = False"
| "np_less _ NaN = False"
| "np_less _ NInf = False"
| "np_less PInf _ = False"
| "np_less _ _ = True"

subsection \<open>Broadcasting\<close>

text \<open>
  An elementwise operation of two arrays pairs the entries along each axis when the two
  lengths agree, repeats the single entry of an axis of length 1, and raises
  \<^verbatim>\<open>ValueError\<close> otherwise.
\<close>

fun collect :: "(error + 'a) list \<Rightarrow> error + 'a list" where
  "collect [] = Inr []"
| "collect (Inl e # rs) = Inl e"
| "collect (Inr v # rs) = (case collect rs of Inl e \<Rightarrow> Inl e | Inr vs \<Rightarrow> Inr (v # vs))"

definition broadcast :: "('a \<Rightarrow> 'b \<Rightarrow> error + 'c) \<Rightarrow> 'a list \<Rightarrow> 'b list \<Rightarrow> error + 'c list" where
  "broadcast f xs ys =
     (if length xs = length ys then collect (map2 f xs ys)
      else if length ys = 1 then collect (map (\<lambda>a. f a (hd ys)) xs)
      else if length xs = 1 then collect (map (\<lambda>b. f (hd xs) b) ys)
      else Inl ValueError)"

definition elementwise1 :: "(npfloat \<Rightarrow> npfloat \<Rightarrow> npfloat) \<Rightarrow> npfloat list \<Rightarrow> npfloat list \<Rightarrow> error + npfloat list" where
  "elementwise1 f = broadcast (\<lambda>a b. Inr (f a b))"

definition elementwise2 :: "(npfloat \<Rightarrow> npfloat \<Rightarrow> npfloat) \<Rightarrow> npfloat ndarray \<Rightarrow> npfloat ndarray \<Rightarrow> error + npfloat ndarray" where
  "elementwise2 f = broadcast (elementwise1 f)"

subsection \<open>Reductions along the last axis\<close>

text \<open>
  \<^verbatim>\<open>mean\<close> is the sum of the lane divided by its length (\<^verbatim>\<open>nan\<close> for an empty
  lane); \<^verbatim>\<open>std\<close> is numpy's default, the population standard deviation
  (\<^verbatim>\<open>ddof=0\<close>): the square root of the mean of the squared deviations from the mean.
\<close>

definition lane_sum :: "npfloat list \<Rightarrow> npfloat" where
  "lane_sum r = foldr np_add r (Fin 0)"

definition lane_mean :: "npfloat list \<Rightarrow> npfloat" where
  "lane_mean r = np_true_divide (lane_sum r) (Fin (real (length r)))"

definition lane_std :: "npfloat list \<Rightarrow> npfloat" where
  "lane_std r =
     (let m = lane_mean r;
          d = map (\<lambda>v. np_subtract v m) r
      in np_sqrt (lane_mean (map (\<lambda>v. np_multiply v v) d)))"

definition mean_keepdims :: "npfloat ndarray \<Rightarrow> npfloat ndarray" where
  "mean_keepdims x = map (\<lambda>r. [lane_mean r]) x"

definition mean_last :: "npfloat ndarray \<Rightarrow> npfloat list" where
  "mean_last x = map lane_mean x"

definition std_last :: "npfloat ndarray \<Rightarrow> npfloat list" where
  "std_last x = map lane_std x"

subsection \<open>Ranking\<close>

text \<open>
  \<^verbatim>\<open>bottleneck.rankdata(a, axis=-1)\<close> ranks each lane: ranks begin at 1, and equal
  values get the average of the ranks they would occupy. A value with \<open>l\<close> smaller and
  \<open>e\<close> equal entries in its lane (itself included) would occupy the ranks
  \<open>l + 1, \<dots>, l + e\<close>, whose average is \<open>l + (e + 1) / 2\<close>. Here the entries
  are finite and are compared as real numbers; the result is a float array.
\<close>

definition lane_rank :: "real list \<Rightarrow> real \<Rightarrow> real" where
  "lane_rank r v =
     real (length (filter (\<lambda>u. u < v) r)) + (real (length (filter (\<lambda>u. u = v) r)) + 1) / 2"

definition rankdata :: "real ndarray \<Rightarrow> npfloat ndarray" where
  "rankdata a = map (\<lambda>r. map (\<lambda>v. Fin (lane_rank r v)) r) a"

section \<open>The functions of the notebook in exact arithmetic\<close>

definition covariance_gufunc :: "npfloat ndarray \<Rightarrow> npfloat ndarray \<Rightarrow> error + npfloat list" where
  "covariance_gufunc x y =
     (case elementwise2 np_subtract x (mean_keepdims x) of
        Inl e \<Rightarrow> Inl e
      | Inr dx \<Rightarrow>
          (case elementwise2 np_subtract y (mean_keepdims y) of
             Inl e \<Rightarrow> Inl e
           | Inr dy \<Rightarrow>
               (case elementwise2 np_multiply dx dy of
                  Inl e \<Rightarrow> Inl e
                | Inr p \<Rightarrow> Inr (mean_last p))))"

definition pearson_correlation_gufunc :: "npfloat ndarray \<Rightarrow> npfloat ndarray \<Rightarrow> error + npfloat list" where
  "pearson_correlation_gufunc x y =
     (case covariance_gufunc x y of
        Inl e \<Rightarrow> Inl e
      | Inr c \<Rightarrow>
          (case elementwise1 np_multiply (std_last x) (std_last y) of
             Inl e \<Rightarrow> Inl e
           | Inr d \<Rightarrow> elementwise1 np_true_divide c d))"

text \<open>
  In exact arithmetic the third function is given for arrays of finite entries. On arrays
  that may hold infinities and \<^verbatim>\<open>nan\<close> it is \<open>spearman_correlation_gufunc_fl\<close> below,
  of which this is the instance in exact arithmetic.
\<close>

definition spearman_correlation_gufunc :: "real ndarray \<Rightarrow> real ndarray \<Rightarrow> error + npfloat list" where
  "spearman_correlation_gufunc x y =
     (let x_ranks = rankdata x;
          y_ranks = rankdata y
      in pearson_correlation_gufunc x_ranks y_ranks)"

text \<open>
  \<^verbatim>\<open>corr.where(corr < 1)\<close> keeps an entry where the comparison is true and puts
  \<^verbatim>\<open>nan\<close> elsewhere.
\<close>

definition where_lt_1 :: "npfloat list \<Rightarrow> npfloat list" where
  "where_lt_1 corr = map (\<lambda>v. if np_less v (Fin 1) then v else NaN) corr"

text \<open>An array of finite entries, as a float array.\<close>

definition asarray :: "real ndarray \<Rightarrow> npfloat ndarray" where
  "asarray x = map (map Fin) x"

section \<open>The statistics the functions are compared with\<close>

text \<open>
  The textbook quantities, on one lane of finite entries: the arithmetic mean, the
  population covariance (the mean of the products of the deviations from the two means),
  the population standard deviation, and Pearson's correlation coefficient.
\<close>

definition avg :: "real list \<Rightarrow> real" where
  "avg r = sum_list r / real (length r)"

definition pcov :: "real list \<Rightarrow> real list \<Rightarrow> real" where
  "pcov r s = avg (map2 (\<lambda>a b. (a - avg r) * (b - avg s)) r s)"

definition pstdev :: "real list \<Rightarrow> real" where
  "pstdev r = sqrt (avg (map (\<lambda>a. (a - avg r)\<^sup>2) r))"

definition has_shape :: "nat \<Rightarrow> nat \<Rightarrow> 'a ndarray \<Rightarrow> bool" where
  "has_shape m n x = (length x = m \<and> list_all (\<lambda>r. length r = n) x)"

definition centred :: "npfloat list \<Rightarrow> npfloat list" where
  "centred r = map (\<lambda>v. np_subtract v (lane_mean r)) r"

definition constant_lane :: "'a list \<Rightarrow> bool" where
  "constant_lane r = (\<forall>a\<in>set r. \<forall>b\<in>set r. a = b)"

definition pearson_r :: "real list \<Rightarrow> real list \<Rightarrow> real" where
  "pearson_r r s = pcov r s / (pstdev r * pstdev s)"

definition pearson_lane :: "real list \<Rightarrow> real list \<Rightarrow> npfloat" where
  "pearson_lane r s =
     (if r = [] \<or> pstdev r * pstdev s = 0 then NaN else Fin (pearson_r r s))"

definition in_unit :: "npfloat \<Rightarrow> bool" where
  "in_unit v = (case v of Fin q \<Rightarrow> - 1 \<le> q \<and> q \<le> 1 | _ \<Rightarrow> False)"


definition varies :: "real ndarray \<Rightarrow> bool" where
  "varies x = list_all (\<lambda>r. \<not> constant_lane r) x"

text \<open>
  Spearman's coefficient in its classical form for lanes without ties,
  \<open>1 - 6 \<Sum>d\<^sup>2 / (n (n\<^sup>2 - 1))\<close>, where \<open>d\<close> runs over the differences of the two
  ranks of each position.
\<close>

definition rank_diff_sq :: "real list \<Rightarrow> real list \<Rightarrow> real" where
  "rank_diff_sq r s = sum_list (map2 (\<lambda>a b. (lane_rank r a - lane_rank s b)\<^sup>2) r s)"

definition spearman_classic :: "real list \<Rightarrow> real list \<Rightarrow> real" where
  "spearman_classic r s =
     1 - 6 * rank_diff_sq r s / (real (length r) * ((real (length r))\<^sup>2 - 1))"

section \<open>The functions of the notebook over the arithmetic of the library\<close>

text \<open>
  numpy computes in floating point. The arithmetic belongs to the library, so it is a
  parameter of the functions:
  \<^item> \<open>fl_cast\<close>, the conversion of a number to a float: numpy converts an integer array
    when it first computes with it, and \<^verbatim>\<open>bottleneck.rankdata\<close> compares the entries of
    an integer array as floats; for a float it is the identity;
  \<^item> the four operations that the functions use;
  \<^item> \<open>fl_add_reduce\<close>, the sum of a lane (\<^verbatim>\<open>np.add.reduce\<close>): the order in which numpy
    adds the entries depends on the length and the layout of the array;
  \<^item> \<open>nan_ranks\<close>, the rank that \<^verbatim>\<open>bottleneck.rankdata\<close> gives to the entry at a position
    of a lane that holds \<^verbatim>\<open>nan\<close>; its documentation does not state it.
\<close>

record numerics =
  fl_cast :: "npfloat \<Rightarrow> npfloat"
  fl_subtract :: "npfloat \<Rightarrow> npfloat \<Rightarrow> npfloat"
  fl_multiply :: "npfloat \<Rightarrow> npfloat \<Rightarrow> npfloat"
  fl_true_divide :: "npfloat \<Rightarrow> npfloat \<Rightarrow> npfloat"
  fl_sqrt :: "npfloat \<Rightarrow> npfloat"
  fl_add_reduce :: "npfloat list \<Rightarrow> npfloat"
  nan_ranks :: "npfloat list \<Rightarrow> nat \<Rightarrow> npfloat"

definition asfloat :: "numerics \<Rightarrow> npfloat ndarray \<Rightarrow> npfloat ndarray" where
  "asfloat F x = map (map (fl_cast F)) x"

text \<open>
  \<^verbatim>\<open>mean\<close> divides the sum of the lane by the number of its entries; \<^verbatim>\<open>std\<close> subtracts
  the mean, multiplies each deviation by itself, takes the mean of the squares and then the
  square root.
\<close>

definition lane_mean_fl :: "numerics \<Rightarrow> npfloat list \<Rightarrow> npfloat" where
  "lane_mean_fl F r = fl_true_divide F (fl_add_reduce F r) (fl_cast F (Fin (real (length r))))"

definition deviations :: "numerics \<Rightarrow> npfloat list \<Rightarrow> npfloat list" where
  "deviations F r = map (\<lambda>v. fl_subtract F v (lane_mean_fl F r)) r"

definition lane_std_fl :: "numerics \<Rightarrow> npfloat list \<Rightarrow> npfloat" where
  "lane_std_fl F r = fl_sqrt F (lane_mean_fl F (map (\<lambda>d. fl_multiply F d d) (deviations F r)))"

definition mean_keepdims_fl :: "numerics \<Rightarrow> npfloat ndarray \<Rightarrow> npfloat ndarray" where
  "mean_keepdims_fl F x = map (\<lambda>r. [lane_mean_fl F r]) x"

definition mean_last_fl :: "numerics \<Rightarrow> npfloat ndarray \<Rightarrow> npfloat list" where
  "mean_last_fl F x = map (lane_mean_fl F) x"

definition std_last_fl :: "numerics \<Rightarrow> npfloat ndarray \<Rightarrow> npfloat list" where
  "std_last_fl F x = map (lane_std_fl F) x"

text \<open>
  \<^verbatim>\<open>bottleneck.rankdata\<close>: the entries are compared as floats. In a lane without
  \<^verbatim>\<open>nan\<close> an entry with \<open>l\<close> smaller and \<open>e\<close> equal entries gets the rank
  \<open>l + (e + 1) / 2\<close>, a whole or a half number, which is a float as it stands.
\<close>

definition rank_value :: "npfloat list \<Rightarrow> npfloat \<Rightarrow> npfloat" where
  "rank_value r v =
     Fin (real (length (filter (\<lambda>u. np_less u v) r))
          + (real (length (filter (\<lambda>u. u = v) r)) + 1) / 2)"

definition rank_lane :: "numerics \<Rightarrow> npfloat list \<Rightarrow> npfloat list" where
  "rank_lane F r =
     (let c = map (fl_cast F) r
      in if NaN \<in> set c then map (nan_ranks F c) [0..<length c] else map (rank_value c) c)"

definition rankdata_fl :: "numerics \<Rightarrow> npfloat ndarray \<Rightarrow> npfloat ndarray" where
  "rankdata_fl F a = map (rank_lane F) a"

definition covariance_gufunc_fl :: "numerics \<Rightarrow> npfloat ndarray \<Rightarrow> npfloat ndarray \<Rightarrow> error + npfloat list" where
  "covariance_gufunc_fl F x y =
     (case elementwise2 (fl_subtract F) (asfloat F x) (mean_keepdims_fl F (asfloat F x)) of
        Inl e \<Rightarrow> Inl e
      | Inr dx \<Rightarrow>
          (case elementwise2 (fl_subtract F) (asfloat F y) (mean_keepdims_fl F (asfloat F y)) of
             Inl e \<Rightarrow> Inl e
           | Inr dy \<Rightarrow>
               (case elementwise2 (fl_multiply F) dx dy of
                  Inl e \<Rightarrow> Inl e
                | Inr p \<Rightarrow> Inr (mean_last_fl F p))))"

definition pearson_correlation_gufunc_fl :: "numerics \<Rightarrow> npfloat ndarray \<Rightarrow> npfloat ndarray \<Rightarrow> error + npfloat list" where
  "pearson_correlation_gufunc_fl F x y =
     (case covariance_gufunc_fl F x y of
        Inl e \<Rightarrow> Inl e
      | Inr c \<Rightarrow>
          (case elementwise1 (fl_multiply F) (std_last_fl F (asfloat F x)) (std_last_fl F (asfloat F y)) of
             Inl e \<Rightarrow> Inl e
           | Inr d \<Rightarrow> elementwise1 (fl_true_divide F) c d))"

definition spearman_correlation_gufunc_fl :: "numerics \<Rightarrow> npfloat ndarray \<Rightarrow> npfloat ndarray \<Rightarrow> error + npfloat list" where
  "spearman_correlation_gufunc_fl F x y =
     (let x_ranks = rankdata_fl F x;
          y_ranks = rankdata_fl F y
      in pearson_correlation_gufunc_fl F x_ranks y_ranks)"

text \<open>
  The statistics of one lane, as the library computes them: the covariance is the mean of
  the products of the deviations from the two means, and Pearson's coefficient is the
  covariance divided by the product of the two standard deviations.
\<close>

definition lane_covariance :: "numerics \<Rightarrow> npfloat list \<Rightarrow> npfloat list \<Rightarrow> npfloat" where
  "lane_covariance F r s = lane_mean_fl F (map2 (fl_multiply F) (deviations F r) (deviations F s))"

definition lane_pearson :: "numerics \<Rightarrow> npfloat list \<Rightarrow> npfloat list \<Rightarrow> npfloat" where
  "lane_pearson F r s =
     fl_true_divide F (lane_covariance F r s) (fl_multiply F (lane_std_fl F r) (lane_std_fl F s))"

definition nan_free :: "npfloat list \<Rightarrow> bool" where
  "nan_free r = (NaN \<notin> set r)"

subsection \<open>Two arithmetics\<close>

text \<open>Exact arithmetic: nothing is rounded, and the sum of a lane is the sum of its entries.\<close>

definition exact :: "(npfloat list \<Rightarrow> nat \<Rightarrow> npfloat) \<Rightarrow> numerics" where
  "exact nr =
     \<lparr>fl_cast = (\<lambda>v. v), fl_subtract = np_subtract, fl_multiply = np_multiply,
      fl_true_divide = np_true_divide, fl_sqrt = np_sqrt, fl_add_reduce = lane_sum,
      nan_ranks = nr\<rparr>"

text \<open>
  IEEE binary64, numpy's \<^verbatim>\<open>float64\<close>. A finite float is a number \<open>m * 2^e\<close> with
  \<open>\<bar>m\<bar> < 2^53\<close> and \<open>-1074 \<le> e\<close>, of magnitude below \<open>2^1024\<close>. \<open>rnd64\<close> rounds a real
  number to the nearest float, to the one with the even \<open>m\<close> when two are equally near: the
  spacing of the floats around \<open>x\<close> is \<open>2^e\<close> with \<open>e\<close> the exponent of \<open>x\<close> less 52, and
  \<open>2^(-1074)\<close> near zero, where the rounding may give zero; a number that rounds
  to \<open>2^1024\<close> or more becomes an infinity. Each operation gives the rounded exact result.
\<close>

definition round_half_even :: "real \<Rightarrow> int" where
  "round_half_even x =
     (let f = \<lfloor>x\<rfloor>; d = x - of_int f
      in if d < 1 / 2 then f else if 1 / 2 < d then f + 1 else if even f then f else f + 1)"

definition rnd64 :: "real \<Rightarrow> npfloat" where
  "rnd64 x =
     (if x = 0 then Fin 0
      else let e = max (\<lfloor>log 2 \<bar>x\<bar>\<rfloor> - 52) (- 1074);
               y = of_int (round_half_even (x / 2 powr of_int e)) * 2 powr of_int e
           in if 2 ^ 1024 \<le> \<bar>y\<bar> then (if 0 < x then PInf else NInf) else Fin y)"

definition rounded :: "npfloat \<Rightarrow> npfloat" where
  "rounded v = (case v of Fin a \<Rightarrow> rnd64 a | _ \<Rightarrow> v)"

text \<open>
  The sum of a lane, adding the entries in their order. numpy's own order depends on the
  length and the layout of the array; on the lanes that are computed below every order of
  the additions gives the same sum, because every partial sum is a float or an infinity.
\<close>

definition add_in_order :: "npfloat list \<Rightarrow> npfloat" where
  "add_in_order r = foldl (\<lambda>a b. rounded (np_add a b)) (Fin 0) r"

definition float64 :: "(npfloat list \<Rightarrow> npfloat) \<Rightarrow> (npfloat list \<Rightarrow> nat \<Rightarrow> npfloat) \<Rightarrow> numerics" where
  "float64 red nr =
     \<lparr>fl_cast = rounded,
      fl_subtract = (\<lambda>a b. rounded (np_subtract a b)),
      fl_multiply = (\<lambda>a b. rounded (np_multiply a b)),
      fl_true_divide = (\<lambda>a b. rounded (np_true_divide a b)),
      fl_sqrt = (\<lambda>a. rounded (np_sqrt a)),
      fl_add_reduce = red,
      nan_ranks = nr\<rparr>"

text \<open>
  binary64 for the lanes that are computed below, which hold no \<^verbatim>\<open>nan\<close>: the sum is
  taken in order, and the ranks in a lane with \<^verbatim>\<open>nan\<close>, which are not used, are set to
  \<^verbatim>\<open>nan\<close>.
\<close>

definition float64_short :: numerics where
  "float64_short = float64 add_in_order (\<lambda>r i. NaN)"

section \<open>The notebook as a program\<close>

text \<open>
  The code cells of the notebook are a straight-line program of imports and of calls into
  xarray, numpy, dask, distributed and matplotlib. The libraries are not part of the
  repository, so they are a parameter of the model: a record with one function for each
  entry point the notebook calls, and the arithmetic of numpy and bottleneck. A library
  function takes the values of its arguments and the library's own global state (the
  loaded modules, the scheduler configuration, the registered client, caches) and returns
  either an exception or a new object, with the new global state. A function that is
  reached through a name (\<^verbatim>\<open>xr.open_dataset\<close>, \<^verbatim>\<open>Client\<close>) takes the object that
  the name is bound to as its first argument.

  Python objects have identity: a name is bound to an address, and the store maps an
  address to the object's current value. A call that returns stores its result at a fresh
  address. The one statement that changes an existing object is the item assignment
  \<^verbatim>\<open>y['time'] = x['time']\<close>, which xarray's \<^verbatim>\<open>__setitem__\<close> carries out on the object
  \<open>y\<close> itself.
\<close>

type_synonym addr = nat

text \<open>The library entry points the notebook calls.\<close>

datatype entry =
  Magic | Import | Import_from | Filterwarnings
  | Client_new | Open_dataset | Getitem | Data_attr | Resample | Max_reduce | Min_reduce
  | Subtract | Mean_reduce | Visualize | Persist | Progress | Repr | Roll | Chunk | Setitem
  | Apply_ufunc | Less_than | Where_mask | Plot | Config_set

text \<open>
  The run of the program is recorded as a list of events: a library call that returned, a
  library call that raised, and the entry into a function that the notebook defines itself.
\<close>

datatype 'e event = Returned entry | Threw entry 'e | Entered string

text \<open>
  An exception is one that a library call raised, or Python's \<^verbatim>\<open>NameError\<close> for a name
  that is read before it is bound.
\<close>

datatype 'e exn = NameError string | Raised 'e

type_synonym ('o, 'e, 'g) libcall = "'g \<Rightarrow> ('e + 'o) \<times> 'g"

record ('o, 'e, 'g) library =
  lib_magic :: "string \<Rightarrow> ('o, 'e, 'g) libcall"
  lib_import :: "string \<Rightarrow> ('o, 'e, 'g) libcall"
  lib_import_from :: "'o \<Rightarrow> string \<Rightarrow> ('o, 'e, 'g) libcall"
  lib_filterwarnings :: "'o \<Rightarrow> string \<Rightarrow> ('o, 'e, 'g) libcall"
  lib_Client :: "'o \<Rightarrow> ('o, 'e, 'g) libcall"
  lib_open_dataset :: "'o \<Rightarrow> string \<Rightarrow> (string \<times> int) list \<Rightarrow> ('o, 'e, 'g) libcall"
  lib_getitem :: "'o \<Rightarrow> string \<Rightarrow> ('o, 'e, 'g) libcall"
  lib_data :: "'o \<Rightarrow> ('o, 'e, 'g) libcall"
  lib_resample :: "'o \<Rightarrow> string \<times> string \<Rightarrow> ('o, 'e, 'g) libcall"
  lib_max :: "'o \<Rightarrow> string \<Rightarrow> ('o, 'e, 'g) libcall"
  lib_min :: "'o \<Rightarrow> string \<Rightarrow> ('o, 'e, 'g) libcall"
  lib_sub :: "'o \<Rightarrow> 'o \<Rightarrow> ('o, 'e, 'g) libcall"
  lib_mean :: "'o \<Rightarrow> string \<Rightarrow> ('o, 'e, 'g) libcall"
  lib_visualize :: "'o \<Rightarrow> ('o, 'e, 'g) libcall"
  lib_persist :: "'o \<Rightarrow> ('o, 'e, 'g) libcall"
  lib_progress :: "'o \<Rightarrow> 'o \<Rightarrow> ('o, 'e, 'g) libcall"
  lib_repr :: "'o \<Rightarrow> ('o, 'e, 'g) libcall"
  lib_roll :: "'o \<Rightarrow> string \<times> int \<Rightarrow> ('o, 'e, 'g) libcall"
  lib_chunk :: "'o \<Rightarrow> (string \<times> int) list \<Rightarrow> ('o, 'e, 'g) libcall"
  lib_setitem :: "'o \<Rightarrow> string \<Rightarrow> 'o \<Rightarrow> ('o, 'e, 'g) libcall"
  lib_apply_ufunc :: "'o \<Rightarrow> (npfloat ndarray \<Rightarrow> npfloat ndarray \<Rightarrow> error + npfloat list) \<Rightarrow> 'o \<Rightarrow> 'o
                      \<Rightarrow> string list list \<Rightarrow> string \<Rightarrow> string list \<Rightarrow> ('o, 'e, 'g) libcall"
  lib_lt :: "'o \<Rightarrow> real \<Rightarrow> ('o, 'e, 'g) libcall"
  lib_where :: "'o \<Rightarrow> 'o \<Rightarrow> ('o, 'e, 'g) libcall"
  lib_plot :: "'o \<Rightarrow> ('o, 'e, 'g) libcall"
  lib_config_set :: "'o \<Rightarrow> string \<times> string \<Rightarrow> ('o, 'e, 'g) libcall"
  lib_numerics :: numerics

record ('o, 'e, 'g) state =
  env :: "string \<Rightarrow> addr option"
  heap :: "addr \<Rightarrow> 'o option"
  nxt :: addr
  libstate :: 'g
  trace :: "'e event list"

type_synonym ('a, 'o, 'e, 'g) prog = "('o, 'e, 'g) state \<Rightarrow> ('e exn + 'a) \<times> ('o, 'e, 'g) state"

text \<open>
  Sequencing stops at the first exception: the notebook has no \<^verbatim>\<open>try\<close> statement, so
  there is no operation that catches one.
\<close>

definition ret :: "'a \<Rightarrow> ('a, 'o, 'e, 'g) prog" where
  "ret v s = (Inr v, s)"

definition pbind :: "('a, 'o, 'e, 'g) prog \<Rightarrow> ('a \<Rightarrow> ('b, 'o, 'e, 'g) prog) \<Rightarrow> ('b, 'o, 'e, 'g) prog" where
  "pbind m k s = (case m s of (Inl x, s') \<Rightarrow> (Inl x, s') | (Inr v, s') \<Rightarrow> k v s')"

text \<open>
  Reading a name gives the address it is bound to and the object's current value. A bound
  name always refers to a stored object; the second \<^verbatim>\<open>NameError\<close> case keeps the function
  total.
\<close>

definition load :: "string \<Rightarrow> (addr \<times> 'o, 'o, 'e, 'g) prog" where
  "load n s =
     (case env s n of
        None \<Rightarrow> (Inl (NameError n), s)
      | Some a \<Rightarrow> (case heap s a of None \<Rightarrow> (Inl (NameError n), s) | Some v \<Rightarrow> (Inr (a, v), s)))"

definition assign :: "string \<Rightarrow> addr \<times> 'o \<Rightarrow> (unit, 'o, 'e, 'g) prog" where
  "assign n r s = (Inr (), s\<lparr>env := (env s)(n \<mapsto> fst r)\<rparr>)"

text \<open>
  A library call: the event is recorded, an exception is passed on as it is, and a result
  is stored at the next free address.
\<close>

definition call :: "entry \<Rightarrow> ('o, 'e, 'g) libcall \<Rightarrow> (addr \<times> 'o, 'o, 'e, 'g) prog" where
  "call en f s =
     (case f (libstate s) of
        (Inl e, g) \<Rightarrow> (Inl (Raised e), s\<lparr>libstate := g, trace := trace s @ [Threw en e]\<rparr>)
      | (Inr v, g) \<Rightarrow>
          (Inr (nxt s, v),
           s\<lparr>heap := (heap s)(nxt s \<mapsto> v), nxt := Suc (nxt s), libstate := g,
              trace := trace s @ [Returned en]\<rparr>))"

text \<open>An in-place update: the result replaces the value stored at an existing address.\<close>

definition mutate :: "entry \<Rightarrow> addr \<Rightarrow> ('o, 'e, 'g) libcall \<Rightarrow> (unit, 'o, 'e, 'g) prog" where
  "mutate en a f s =
     (case f (libstate s) of
        (Inl e, g) \<Rightarrow> (Inl (Raised e), s\<lparr>libstate := g, trace := trace s @ [Threw en e]\<rparr>)
      | (Inr v, g) \<Rightarrow>
          (Inr (), s\<lparr>heap := (heap s)(a \<mapsto> v), libstate := g, trace := trace s @ [Returned en]\<rparr>))"

definition enter :: "string \<Rightarrow> (unit, 'o, 'e, 'g) prog" where
  "enter f s = (Inr (), s\<lparr>trace := trace s @ [Entered f]\<rparr>)"

definition discard :: "('a, 'o, 'e, 'g) prog \<Rightarrow> (unit, 'o, 'e, 'g) prog" where
  "discard m = pbind m (\<lambda>_. ret ())"

text \<open>
  The value of the last expression of a cell is displayed, which calls the object's
  \<^verbatim>\<open>repr\<close>.
\<close>

definition display :: "('o, 'e, 'g) library \<Rightarrow> addr \<times> 'o \<Rightarrow> (unit, 'o, 'e, 'g) prog" where
  "display lib r = discard (call Repr (lib_repr lib (snd r)))"

text \<open>
  \<^verbatim>\<open>
  def spearman_correlation(x, y, dim):
      return xr.apply_ufunc(
          spearman_correlation_gufunc, x, y,
          input_core_dims=[[dim], [dim]],
          dask='parallelized',
          output_dtypes=[float])
  \<close>
  The function is the notebook's own; its entry is recorded, and its body reads the name
  \<open>xr\<close> and makes the one library call. The function handed to \<^verbatim>\<open>apply_ufunc\<close> is
  the notebook's \<^verbatim>\<open>spearman_correlation_gufunc\<close>, over the arithmetic of the library.
  (The parameter \<^verbatim>\<open>dim\<close> is written \<open>dm\<close> here.)
\<close>

definition spearman_correlation ::
  "('o, 'e, 'g) library \<Rightarrow> addr \<times> 'o \<Rightarrow> addr \<times> 'o \<Rightarrow> string \<Rightarrow> (addr \<times> 'o, 'o, 'e, 'g) prog" where
  "spearman_correlation lib x y dm =
     pbind (enter ''spearman_correlation'') (\<lambda>_.
     pbind (load ''xr'') (\<lambda>m.
     call Apply_ufunc (lib_apply_ufunc lib (snd m)
                         (spearman_correlation_gufunc_fl (lib_numerics lib)) (snd x) (snd y)
                         [[dm], [dm]] ''parallelized'' [''float''])))"

text \<open>
  The statements of the code cells, named by their line in the notebook file. The four
  \<^verbatim>\<open>def\<close> statements of lines 160 to 177 bind the names of the functions, which are the
  definitions of this theory, and raise nothing; they are not statements of the model.
  \<^verbatim>\<open>
  61   %matplotlib inline
  63   import xarray as xr
  64   import numpy as np
  66   np.warnings.filterwarnings('ignore')
  77   from distributed import Client, progress
  78   client = Client()
  79   client
  88   ds = xr.open_dataset('./data/rasm.nc', chunks={'time': 10})
  89   ds
  99   ds['Tair'].data
  109  t_range = (ds['Tair'].resample(time='AS').max('time') -
  110             ds['Tair'].resample(time='AS').min('time')).mean('time')
  119  t_range.data.visualize()
  128  results = t_range.persist()
  129  progress(results)
  138  results
  158  import bottleneck
  186  ds['Tair'].roll(time=1)
  195  ds = ds.chunk({'x': 25, 'y': 25, 'time': -1})
  198  x = ds['Tair']
  199  y = ds['Tair'].roll(time=1)
  200  y['time'] = x['time']
  204  corr = spearman_correlation(x, y, 'time')
  205  corr = corr.where(corr < 1)
  206  corr
  215  corr.plot()
  238  import dask.multiprocessing
  239  dask.config.set(scheduler='processes')
  243  from distributed import Client
  244  client = Client()
  \<close>
  An \<^verbatim>\<open>import\<close> loads the module and binds a name to it
  (\<^verbatim>\<open>import dask.multiprocessing\<close> binds \<open>dask\<close>). A \<^verbatim>\<open>from\<close> import loads the
  module and then, name by name, takes the attribute from the module and binds the name to
  it.
\<close>

definition import_as :: "('o, 'e, 'g) library \<Rightarrow> string \<Rightarrow> string \<Rightarrow> (unit, 'o, 'e, 'g) prog" where
  "import_as lib md n = pbind (call Import (lib_import lib md)) (assign n)"

fun import_names :: "('o, 'e, 'g) library \<Rightarrow> addr \<times> 'o \<Rightarrow> string list \<Rightarrow> (unit, 'o, 'e, 'g) prog" where
  "import_names lib m [] = ret ()"
| "import_names lib m (n # ns) =
     pbind (call Import_from (lib_import_from lib (snd m) n)) (\<lambda>c.
     pbind (assign n c) (\<lambda>_. import_names lib m ns))"

definition from_import :: "('o, 'e, 'g) library \<Rightarrow> string \<Rightarrow> string list \<Rightarrow> (unit, 'o, 'e, 'g) prog" where
  "from_import lib md ns = pbind (call Import (lib_import lib md)) (\<lambda>m. import_names lib m ns)"

definition line_61 :: "('o, 'e, 'g) library \<Rightarrow> (unit, 'o, 'e, 'g) prog" where
  "line_61 lib = discard (call Magic (lib_magic lib ''matplotlib inline''))"

definition line_63 :: "('o, 'e, 'g) library \<Rightarrow> (unit, 'o, 'e, 'g) prog" where
  "line_63 lib = import_as lib ''xarray'' ''xr''"

definition line_64 :: "('o, 'e, 'g) library \<Rightarrow> (unit, 'o, 'e, 'g) prog" where
  "line_64 lib = import_as lib ''numpy'' ''np''"

definition line_66 :: "('o, 'e, 'g) library \<Rightarrow> (unit, 'o, 'e, 'g) prog" where
  "line_66 lib =
     pbind (load ''np'') (\<lambda>m.
     discard (call Filterwarnings (lib_filterwarnings lib (snd m) ''ignore'')))"

definition line_77 :: "('o, 'e, 'g) library \<Rightarrow> (unit, 'o, 'e, 'g) prog" where
  "line_77 lib = from_import lib ''distributed'' [''Client'', ''progress'']"

definition line_78 :: "('o, 'e, 'g) library \<Rightarrow> (unit, 'o, 'e, 'g) prog" where
  "line_78 lib =
     pbind (load ''Client'') (\<lambda>c.
     pbind (call Client_new (lib_Client lib (snd c))) (assign ''client''))"

definition line_79 :: "('o, 'e, 'g) library \<Rightarrow> (unit, 'o, 'e, 'g) prog" where
  "line_79 lib = pbind (load ''client'') (display lib)"

definition line_88 :: "('o, 'e, 'g) library \<Rightarrow> (unit, 'o, 'e, 'g) prog" where
  "line_88 lib =
     pbind (load ''xr'') (\<lambda>m.
     pbind (call Open_dataset (lib_open_dataset lib (snd m) ''./data/rasm.nc'' [(''time'', 10)]))
       (assign ''ds''))"

definition line_89 :: "('o, 'e, 'g) library \<Rightarrow> (unit, 'o, 'e, 'g) prog" where
  "line_89 lib = pbind (load ''ds'') (display lib)"

definition line_99 :: "('o, 'e, 'g) library \<Rightarrow> (unit, 'o, 'e, 'g) prog" where
  "line_99 lib =
     pbind (load ''ds'') (\<lambda>d.
     pbind (call Getitem (lib_getitem lib (snd d) ''Tair'')) (\<lambda>a.
     pbind (call Data_attr (lib_data lib (snd a))) (display lib)))"

definition line_109 :: "('o, 'e, 'g) library \<Rightarrow> (unit, 'o, 'e, 'g) prog" where
  "line_109 lib =
     pbind (load ''ds'') (\<lambda>d.
     pbind (call Getitem (lib_getitem lib (snd d) ''Tair'')) (\<lambda>a.
     pbind (call Resample (lib_resample lib (snd a) (''time'', ''AS''))) (\<lambda>b.
     pbind (call Max_reduce (lib_max lib (snd b) ''time'')) (\<lambda>hi.
     pbind (load ''ds'') (\<lambda>d'.
     pbind (call Getitem (lib_getitem lib (snd d') ''Tair'')) (\<lambda>a'.
     pbind (call Resample (lib_resample lib (snd a') (''time'', ''AS''))) (\<lambda>b'.
     pbind (call Min_reduce (lib_min lib (snd b') ''time'')) (\<lambda>lo.
     pbind (call Subtract (lib_sub lib (snd hi) (snd lo))) (\<lambda>d.
     pbind (call Mean_reduce (lib_mean lib (snd d) ''time'')) (assign ''t_range''))))))))))"

definition line_119 :: "('o, 'e, 'g) library \<Rightarrow> (unit, 'o, 'e, 'g) prog" where
  "line_119 lib =
     pbind (load ''t_range'') (\<lambda>t.
     pbind (call Data_attr (lib_data lib (snd t))) (\<lambda>d.
     pbind (call Visualize (lib_visualize lib (snd d))) (display lib)))"

definition line_128 :: "('o, 'e, 'g) library \<Rightarrow> (unit, 'o, 'e, 'g) prog" where
  "line_128 lib =
     pbind (load ''t_range'') (\<lambda>t.
     pbind (call Persist (lib_persist lib (snd t))) (assign ''results''))"

definition line_129 :: "('o, 'e, 'g) library \<Rightarrow> (unit, 'o, 'e, 'g) prog" where
  "line_129 lib =
     pbind (load ''progress'') (\<lambda>f.
     pbind (load ''results'') (\<lambda>r.
     pbind (call Progress (lib_progress lib (snd f) (snd r))) (display lib)))"

definition line_138 :: "('o, 'e, 'g) library \<Rightarrow> (unit, 'o, 'e, 'g) prog" where
  "line_138 lib = pbind (load ''results'') (display lib)"

definition line_158 :: "('o, 'e, 'g) library \<Rightarrow> (unit, 'o, 'e, 'g) prog" where
  "line_158 lib = import_as lib ''bottleneck'' ''bottleneck''"

definition line_186 :: "('o, 'e, 'g) library \<Rightarrow> (unit, 'o, 'e, 'g) prog" where
  "line_186 lib =
     pbind (load ''ds'') (\<lambda>d.
     pbind (call Getitem (lib_getitem lib (snd d) ''Tair'')) (\<lambda>a.
     pbind (call Roll (lib_roll lib (snd a) (''time'', 1))) (display lib)))"

definition line_195 :: "('o, 'e, 'g) library \<Rightarrow> (unit, 'o, 'e, 'g) prog" where
  "line_195 lib =
     pbind (load ''ds'') (\<lambda>d.
     pbind (call Chunk (lib_chunk lib (snd d) [(''x'', 25), (''y'', 25), (''time'', - 1)]))
       (assign ''ds''))"

definition line_198 :: "('o, 'e, 'g) library \<Rightarrow> (unit, 'o, 'e, 'g) prog" where
  "line_198 lib =
     pbind (load ''ds'') (\<lambda>d.
     pbind (call Getitem (lib_getitem lib (snd d) ''Tair'')) (assign ''x''))"

definition line_199 :: "('o, 'e, 'g) library \<Rightarrow> (unit, 'o, 'e, 'g) prog" where
  "line_199 lib =
     pbind (load ''ds'') (\<lambda>d.
     pbind (call Getitem (lib_getitem lib (snd d) ''Tair'')) (\<lambda>a.
     pbind (call Roll (lib_roll lib (snd a) (''time'', 1))) (assign ''y'')))"

text \<open>
  Python evaluates the right-hand side \<^verbatim>\<open>x['time']\<close> first, then the target \<open>y\<close>, and
  calls \<^verbatim>\<open>y.__setitem__('time', ...)\<close>.
\<close>

definition line_200 :: "('o, 'e, 'g) library \<Rightarrow> (unit, 'o, 'e, 'g) prog" where
  "line_200 lib =
     pbind (load ''x'') (\<lambda>x.
     pbind (call Getitem (lib_getitem lib (snd x) ''time'')) (\<lambda>t.
     pbind (load ''y'') (\<lambda>y.
     mutate Setitem (fst y) (lib_setitem lib (snd y) ''time'' (snd t)))))"

definition line_204 :: "('o, 'e, 'g) library \<Rightarrow> (unit, 'o, 'e, 'g) prog" where
  "line_204 lib =
     pbind (load ''x'') (\<lambda>x.
     pbind (load ''y'') (\<lambda>y.
     pbind (spearman_correlation lib x y ''time'') (assign ''corr'')))"

definition line_205 :: "('o, 'e, 'g) library \<Rightarrow> (unit, 'o, 'e, 'g) prog" where
  "line_205 lib =
     pbind (load ''corr'') (\<lambda>c.
     pbind (load ''corr'') (\<lambda>c'.
     pbind (call Less_than (lib_lt lib (snd c') 1)) (\<lambda>m.
     pbind (call Where_mask (lib_where lib (snd c) (snd m))) (assign ''corr''))))"

definition line_206 :: "('o, 'e, 'g) library \<Rightarrow> (unit, 'o, 'e, 'g) prog" where
  "line_206 lib = pbind (load ''corr'') (display lib)"

definition line_215 :: "('o, 'e, 'g) library \<Rightarrow> (unit, 'o, 'e, 'g) prog" where
  "line_215 lib =
     pbind (load ''corr'') (\<lambda>c.
     pbind (call Plot (lib_plot lib (snd c))) (display lib))"

definition line_238 :: "('o, 'e, 'g) library \<Rightarrow> (unit, 'o, 'e, 'g) prog" where
  "line_238 lib = import_as lib ''dask.multiprocessing'' ''dask''"

definition line_239 :: "('o, 'e, 'g) library \<Rightarrow> (unit, 'o, 'e, 'g) prog" where
  "line_239 lib =
     pbind (load ''dask'') (\<lambda>m.
     discard (call Config_set (lib_config_set lib (snd m) (''scheduler'', ''processes''))))"

definition line_243 :: "('o, 'e, 'g) library \<Rightarrow> (unit, 'o, 'e, 'g) prog" where
  "line_243 lib = from_import lib ''distributed'' [''Client'']"

definition line_244 :: "('o, 'e, 'g) library \<Rightarrow> (unit, 'o, 'e, 'g) prog" where
  "line_244 lib =
     pbind (load ''Client'') (\<lambda>c.
     pbind (call Client_new (lib_Client lib (snd c))) (assign ''client''))"

definition notebook :: "('o, 'e, 'g) library \<Rightarrow> (nat \<times> (unit, 'o, 'e, 'g) prog) list" where
  "notebook lib =
     [(61, line_61 lib), (63, line_63 lib), (64, line_64 lib), (66, line_66 lib),
      (77, line_77 lib), (78, line_78 lib), (79, line_79 lib), (88, line_88 lib),
      (89, line_89 lib), (99, line_99 lib), (109, line_109 lib), (119, line_119 lib),
      (128, line_128 lib), (129, line_129 lib), (138, line_138 lib), (158, line_158 lib),
      (186, line_186 lib), (195, line_195 lib), (198, line_198 lib), (199, line_199 lib),
      (200, line_200 lib), (204, line_204 lib), (205, line_205 lib), (206, line_206 lib),
      (215, line_215 lib), (238, line_238 lib), (239, line_239 lib), (243, line_243 lib),
      (244, line_244 lib)]"

text \<open>
  Running the cells from top to bottom stops at the first statement that raises; the state
  is kept as it is then.
\<close>

fun run :: "(nat \<times> (unit, 'o, 'e, 'g) prog) list \<Rightarrow> ('o, 'e, 'g) state
            \<Rightarrow> 'e exn option \<times> ('o, 'e, 'g) state" where
  "run [] s = (None, s)"
| "run ((l, p) # ps) s = (case p s of (Inl x, s') \<Rightarrow> (Some x, s') | (Inr _, s') \<Rightarrow> run ps s')"

text \<open>A fresh kernel: no name is bound and no object is stored.\<close>

definition init :: "'g \<Rightarrow> ('o, 'e, 'g) state" where
  "init g = \<lparr>env = \<lambda>_. None, heap = \<lambda>_. None, nxt = 0, libstate = g, trace = []\<rparr>"

text \<open>
  The state in which the statement of line \<open>l\<close> starts, when the cells run from a fresh
  kernel; and the property that a step leaves every stored object as it is.
\<close>

definition state_before :: "nat \<Rightarrow> ('o, 'e, 'g) library \<Rightarrow> 'g \<Rightarrow> ('o, 'e, 'g) state" where
  "state_before l lib g = snd (run (takeWhile (\<lambda>(k, p). k < l) (notebook lib)) (init g))"

definition unchanged_by :: "('a, 'o, 'e, 'g) prog \<Rightarrow> ('o, 'e, 'g) state \<Rightarrow> bool" where
  "unchanged_by p s = (\<forall>a<nxt s. heap (snd (p s)) a = heap s a)"

subsection \<open>What a run records\<close>

fun called :: "'e event \<Rightarrow> 'e event" where
  "called (Threw en e) = Returned en"
| "called ev = ev"

fun threw :: "'e event \<Rightarrow> bool" where
  "threw (Threw en e) = True"
| "threw ev = False"

definition clean :: "'e event list \<Rightarrow> bool" where
  "clean t = list_all (\<lambda>ev. \<not> threw ev) t"

definition failing :: "'e event list \<Rightarrow> 'e exn \<Rightarrow> bool" where
  "failing t x =
     (case x of
        NameError n \<Rightarrow> clean t
      | Raised e \<Rightarrow> t \<noteq> [] \<and> clean (butlast t) \<and> (\<exists>en. last t = Threw en e))"

text \<open>
  \<open>emits es es' p\<close>: of the events \<open>es\<close> that are expected, \<open>p\<close> records a first part, all
  as calls that returned, and leaves \<open>es'\<close>; or it raises, and has then recorded a first part
  of \<open>es\<close> whose last call is the one that raised.
\<close>

definition emits :: "'e event list \<Rightarrow> 'e event list \<Rightarrow> ('a, 'o, 'e, 'g) prog \<Rightarrow> bool" where
  "emits es es' p =
     (\<forall>s. case p s of
        (Inr v, s') \<Rightarrow> \<exists>t. trace s' = trace s @ t \<and> clean t \<and> es = t @ es'
      | (Inl x, s') \<Rightarrow> \<exists>t u. trace s' = trace s @ t \<and> es = map called t @ u \<and> failing t x)"

definition emits_run :: "'e event list \<Rightarrow> 'e event list \<Rightarrow> (nat \<times> (unit, 'o, 'e, 'g) prog) list \<Rightarrow> bool" where
  "emits_run es es' ps =
     (\<forall>s. case run ps s of
        (None, s') \<Rightarrow> \<exists>t. trace s' = trace s @ t \<and> clean t \<and> es = t @ es'
      | (Some x, s') \<Rightarrow> \<exists>t u. trace s' = trace s @ t \<and> es = map called t @ u \<and> failing t x)"

text \<open>The events of a run in which no call raises.\<close>

definition full_events :: "'e event list" where
  "full_events =
  [Returned Magic, Returned Import, Returned Import, Returned Filterwarnings,
   Returned Import, Returned Import_from, Returned Import_from,
   Returned Client_new, Returned Repr, Returned Open_dataset, Returned Repr,
   Returned Getitem, Returned Data_attr, Returned Repr,
   Returned Getitem, Returned Resample, Returned Max_reduce, Returned Getitem, Returned Resample,
   Returned Min_reduce, Returned Subtract, Returned Mean_reduce,
   Returned Data_attr, Returned Visualize, Returned Repr,
   Returned Persist, Returned Progress, Returned Repr, Returned Repr,
   Returned Import,
   Returned Getitem, Returned Roll, Returned Repr,
   Returned Chunk, Returned Getitem, Returned Getitem, Returned Roll,
   Returned Getitem, Returned Setitem,
   Entered ''spearman_correlation'', Returned Apply_ufunc,
   Returned Less_than, Returned Where_mask, Returned Repr, Returned Plot, Returned Repr,
   Returned Import, Returned Config_set,
   Returned Import, Returned Import_from, Returned Client_new]"

text \<open>
  \<open>known N s\<close>: every address below the next free one holds an object, and every name of
  \<open>N\<close> is bound to such an address. \<open>binds N M p\<close>: from such a state, \<open>p\<close> raises nothing
  but what a library call raised, and binds the names \<open>M\<close> when it returns.
\<close>

definition known :: "string list \<Rightarrow> ('o, 'e, 'g) state \<Rightarrow> bool" where
  "known N s = ((\<forall>a<nxt s. heap s a \<noteq> None) \<and> list_all (\<lambda>n. \<exists>a<nxt s. env s n = Some a) N)"

definition binds :: "string list \<Rightarrow> string list \<Rightarrow> ('a, 'o, 'e, 'g) prog \<Rightarrow> bool" where
  "binds N M p =
     (\<forall>s. known N s \<longrightarrow>
        (case p s of
           (Inr v, s') \<Rightarrow> known M s'
         | (Inl x, s') \<Rightarrow> (\<exists>e. x = Raised e) \<and> known N s'))"

definition binds_run :: "string list \<Rightarrow> (nat \<times> (unit, 'o, 'e, 'g) prog) list \<Rightarrow> bool" where
  "binds_run N ps =
     (\<forall>s. known N s \<longrightarrow> (case run ps s of (None, s') \<Rightarrow> True | (Some x, s') \<Rightarrow> \<exists>e. x = Raised e))"

text \<open>
  \<open>expr p\<close>: \<open>p\<close> binds no name and changes no stored object; it may store new ones.
  \<open>allocs p\<close>: \<open>p\<close> changes no stored object and binds names only to new addresses.
  \<open>frames p\<close>: moreover \<open>p\<close> binds nothing when it raises.
\<close>

definition expr :: "('a, 'o, 'e, 'g) prog \<Rightarrow> bool" where
  "expr p =
     (\<forall>s. case p s of (r, s') \<Rightarrow>
        env s' = env s \<and> nxt s \<le> nxt s' \<and> (\<forall>a<nxt s. heap s' a = heap s a))"

definition allocs :: "('a, 'o, 'e, 'g) prog \<Rightarrow> bool" where
  "allocs p =
     (\<forall>s. case p s of (r, s') \<Rightarrow>
        nxt s \<le> nxt s' \<and> (\<forall>a<nxt s. heap s' a = heap s a)
        \<and> (\<forall>n b. env s' n = Some b \<longrightarrow> env s n = Some b \<or> nxt s \<le> b))"

definition frames :: "('a, 'o, 'e, 'g) prog \<Rightarrow> bool" where
  "frames p =
     (\<forall>s. case p s of (r, s') \<Rightarrow>
        nxt s \<le> nxt s' \<and> (\<forall>a<nxt s. heap s' a = heap s a)
        \<and> (\<forall>n b. env s' n = Some b \<longrightarrow> env s n = Some b \<or> nxt s \<le> b)
        \<and> (case r of Inl x \<Rightarrow> env s' = env s | Inr v \<Rightarrow> True))"

text \<open>
  \<open>all_before P Q t\<close>: in \<open>t\<close>, every event with \<open>P\<close> comes before every event with
  \<open>Q\<close>. \<open>follows P Q t\<close>: in \<open>t\<close>, no event with \<open>Q\<close> comes before the first
  event with \<open>P\<close>, so that every event with \<open>Q\<close> has an event with \<open>P\<close> before it.
\<close>

fun all_before :: "('a \<Rightarrow> bool) \<Rightarrow> ('a \<Rightarrow> bool) \<Rightarrow> 'a list \<Rightarrow> bool" where
  "all_before P Q [] = True"
| "all_before P Q (e # t) = ((Q e \<longrightarrow> list_all (\<lambda>x. \<not> P x) (e # t)) \<and> all_before P Q t)"

definition follows :: "('a \<Rightarrow> bool) \<Rightarrow> ('a \<Rightarrow> bool) \<Rightarrow> 'a list \<Rightarrow> bool" where
  "follows P Q t = list_all (\<lambda>x. \<not> Q x) (takeWhile (\<lambda>x. \<not> P x) t)"

fun entry_of :: "'e event \<Rightarrow> entry option" where
  "entry_of (Returned en) = Some en"
| "entry_of (Threw en e) = Some en"
| "entry_of (Entered f) = None"

definition is_open :: "'e event \<Rightarrow> bool" where
  "is_open ev = (entry_of ev = Some Open_dataset)"

definition is_aggregate :: "'e event \<Rightarrow> bool" where
  "is_aggregate ev =
     (entry_of ev \<in> {Some Resample, Some Max_reduce, Some Min_reduce, Some Subtract, Some Mean_reduce})"

definition is_masking :: "'e event \<Rightarrow> bool" where
  "is_masking ev = (entry_of ev \<in> {Some Less_than, Some Where_mask})"

definition is_transformation :: "'e event \<Rightarrow> bool" where
  "is_transformation ev =
     (is_aggregate ev \<or> is_masking ev
      \<or> entry_of ev \<in> {Some Roll, Some Chunk, Some Setitem, Some Apply_ufunc})"

definition is_visualize :: "'e event \<Rightarrow> bool" where
  "is_visualize ev = (entry_of ev = Some Visualize)"

definition is_persist :: "'e event \<Rightarrow> bool" where
  "is_persist ev = (entry_of ev = Some Persist)"

definition is_library :: "'e event \<Rightarrow> bool" where
  "is_library ev = (entry_of ev \<noteq> None)"

definition is_entry :: "entry \<Rightarrow> 'e event \<Rightarrow> bool" where
  "is_entry en ev = (entry_of ev = Some en)"

text \<open>The roll, the rechunking, the coordinate assignment, the correlation and the masking
  of lines 186 to 205.\<close>

definition is_later :: "'e event \<Rightarrow> bool" where
  "is_later ev =
     (entry_of ev \<in> {Some Roll, Some Chunk, Some Setitem, Some Apply_ufunc, Some Less_than,
                      Some Where_mask})"

subsection \<open>A library that keeps a record of the exceptions it raises\<close>

text \<open>
  To state that the program raises exactly when a library call raises, the library itself
  keeps the record: \<open>logged f\<close> behaves as \<open>f\<close> and adds each exception that \<open>f\<close> raises
  to a list in the library's state, and \<open>monitored lib\<close> is \<open>lib\<close> with every entry point
  logged. The record is written by the library, not by the program.
\<close>

definition logged :: "('o, 'e, 'g) libcall \<Rightarrow> ('o, 'e, 'g \<times> 'e list) libcall" where
  "logged f =
     (\<lambda>(g, lg). case f g of
        (Inl e, g') \<Rightarrow> (Inl e, (g', lg @ [e]))
      | (Inr v, g') \<Rightarrow> (Inr v, (g', lg)))"

definition monitored :: "('o, 'e, 'g) library \<Rightarrow> ('o, 'e, 'g \<times> 'e list) library" where
  "monitored lib = \<lparr>
     lib_magic = (\<lambda>m. logged (lib_magic lib m)),
     lib_import = (\<lambda>m. logged (lib_import lib m)),
     lib_import_from = (\<lambda>m n. logged (lib_import_from lib m n)),
     lib_filterwarnings = (\<lambda>m a. logged (lib_filterwarnings lib m a)),
     lib_Client = (\<lambda>c. logged (lib_Client lib c)),
     lib_open_dataset = (\<lambda>m p c. logged (lib_open_dataset lib m p c)),
     lib_getitem = (\<lambda>v k. logged (lib_getitem lib v k)),
     lib_data = (\<lambda>v. logged (lib_data lib v)),
     lib_resample = (\<lambda>v r. logged (lib_resample lib v r)),
     lib_max = (\<lambda>v d. logged (lib_max lib v d)),
     lib_min = (\<lambda>v d. logged (lib_min lib v d)),
     lib_sub = (\<lambda>v w. logged (lib_sub lib v w)),
     lib_mean = (\<lambda>v d. logged (lib_mean lib v d)),
     lib_visualize = (\<lambda>v. logged (lib_visualize lib v)),
     lib_persist = (\<lambda>v. logged (lib_persist lib v)),
     lib_progress = (\<lambda>f v. logged (lib_progress lib f v)),
     lib_repr = (\<lambda>v. logged (lib_repr lib v)),
     lib_roll = (\<lambda>v s. logged (lib_roll lib v s)),
     lib_chunk = (\<lambda>v c. logged (lib_chunk lib v c)),
     lib_setitem = (\<lambda>v k w. logged (lib_setitem lib v k w)),
     lib_apply_ufunc = (\<lambda>m f v w d k t. logged (lib_apply_ufunc lib m f v w d k t)),
     lib_lt = (\<lambda>v q. logged (lib_lt lib v q)),
     lib_where = (\<lambda>v m. logged (lib_where lib v m)),
     lib_plot = (\<lambda>v. logged (lib_plot lib v)),
     lib_config_set = (\<lambda>m kv. logged (lib_config_set lib m kv)),
     lib_numerics = lib_numerics lib
   \<rparr>"

text \<open>
  \<open>logs p\<close>: run on a library that keeps the record, \<open>p\<close> leaves the record as it is when
  it returns or raises a \<^verbatim>\<open>NameError\<close>, and when it raises a library's exception that
  exception is the one entry that was added. \<open>same_run p q\<close>: \<open>q\<close>, on the library that
  keeps the record, returns or raises as \<open>p\<close> does on the library itself, with the same
  names, objects and events.
\<close>

definition logs :: "('a, 'o, 'e, 'g \<times> 'e list) prog \<Rightarrow> bool" where
  "logs p =
     (\<forall>s. case p s of
        (Inr v, s') \<Rightarrow> snd (libstate s') = snd (libstate s)
      | (Inl (NameError n), s') \<Rightarrow> snd (libstate s') = snd (libstate s)
      | (Inl (Raised e), s') \<Rightarrow> snd (libstate s') = snd (libstate s) @ [e])"

definition logs_run :: "(nat \<times> (unit, 'o, 'e, 'g \<times> 'e list) prog) list \<Rightarrow> bool" where
  "logs_run ps =
     (\<forall>s. case run ps s of
        (None, s') \<Rightarrow> snd (libstate s') = snd (libstate s)
      | (Some (NameError n), s') \<Rightarrow> snd (libstate s') = snd (libstate s)
      | (Some (Raised e), s') \<Rightarrow> snd (libstate s') = snd (libstate s) @ [e])"

definition same_state :: "('o, 'e, 'g) state \<Rightarrow> ('o, 'e, 'g \<times> 'e list) state \<Rightarrow> bool" where
  "same_state s t =
     (env t = env s \<and> heap t = heap s \<and> nxt t = nxt s \<and> trace t = trace s
      \<and> fst (libstate t) = libstate s)"

definition same_run :: "('a, 'o, 'e, 'g) prog \<Rightarrow> ('a, 'o, 'e, 'g \<times> 'e list) prog \<Rightarrow> bool" where
  "same_run p q =
     (\<forall>s t. same_state s t \<longrightarrow> fst (q t) = fst (p s) \<and> same_state (snd (p s)) (snd (q t)))"

definition same_runs ::
  "(nat \<times> (unit, 'o, 'e, 'g) prog) list \<Rightarrow> (nat \<times> (unit, 'o, 'e, 'g \<times> 'e list) prog) list \<Rightarrow> bool" where
  "same_runs ps qs =
     (\<forall>s t. same_state s t \<longrightarrow>
        fst (run qs t) = fst (run ps s) \<and> same_state (snd (run ps s)) (snd (run qs t)))"

subsection \<open>A small library to run the notebook on\<close>

text \<open>
  A library instance for the concrete runs below. An array object holds its time
  coordinate and its data as lanes along time, one lane for each grid point.
  \<^verbatim>\<open>roll(time=1)\<close> rotates the data and, as xarray did by default when the notebook was
  written, the time coordinate with it; \<^verbatim>\<open>y['time'] = ...\<close> replaces the time
  coordinate; \<^verbatim>\<open>apply_ufunc\<close> applies the function to the lanes of its two arguments;
  \<^verbatim>\<open>where\<close> keeps the entries whose mask is true and puts \<^verbatim>\<open>nan\<close> elsewhere. Its
  arithmetic is the exact one.
\<close>

datatype tobj = Arr "nat list" "real ndarray" | Res "npfloat list" | Mask "bool list" | Other

definition rotate_right :: "'a list \<Rightarrow> 'a list" where
  "rotate_right xs = (if xs = [] then [] else last xs # butlast xs)"

definition reduce_lane :: "(real \<Rightarrow> real \<Rightarrow> real) \<Rightarrow> real list \<Rightarrow> real list" where
  "reduce_lane f r = (case r of [] \<Rightarrow> [] | a # t \<Rightarrow> [foldr f t a])"

definition ok :: "'o \<Rightarrow> ('o, string, string) libcall" where
  "ok v g = (Inr v, g)"

definition fails :: "string \<Rightarrow> ('o, string, string) libcall" where
  "fails e g = (Inl e, g)"

definition toy :: "(tobj, string, string) library" where
  "toy = \<lparr>
     lib_magic = (\<lambda>m. ok Other),
     lib_import = (\<lambda>m. ok Other),
     lib_import_from = (\<lambda>m n. ok Other),
     lib_filterwarnings = (\<lambda>m a. ok Other),
     lib_Client = (\<lambda>c g. (Inr Other, ''distributed'')),
     lib_open_dataset = (\<lambda>m path chunks. ok (Arr [0, 1, 2] [[1, 2, 4], [3, 1, 2]])),
     lib_getitem = (\<lambda>v k. case v of
        Arr t ls \<Rightarrow> if k = ''time'' then ok (Arr t []) else if k = ''Tair'' then ok (Arr t ls)
                    else fails ''KeyError''
      | _ \<Rightarrow> fails ''TypeError''),
     lib_data = ok,
     lib_resample = (\<lambda>v rule. ok v),
     lib_max = (\<lambda>v dim. case v of
        Arr t ls \<Rightarrow> ok (Arr [0] (map (reduce_lane max) ls)) | _ \<Rightarrow> fails ''TypeError''),
     lib_min = (\<lambda>v dim. case v of
        Arr t ls \<Rightarrow> ok (Arr [0] (map (reduce_lane min) ls)) | _ \<Rightarrow> fails ''TypeError''),
     lib_sub = (\<lambda>v w. case (v, w) of
        (Arr t ls, Arr t' ls') \<Rightarrow> ok (Arr t (map2 (map2 (-)) ls ls')) | _ \<Rightarrow> fails ''TypeError''),
     lib_mean = (\<lambda>v dim. case v of
        Arr t ls \<Rightarrow> ok (Arr [] (map (\<lambda>r. [avg r]) ls)) | _ \<Rightarrow> fails ''TypeError''),
     lib_visualize = (\<lambda>v. ok Other),
     lib_persist = ok,
     lib_progress = (\<lambda>f v. ok Other),
     lib_repr = (\<lambda>v. ok Other),
     lib_roll = (\<lambda>v sh. case v of
        Arr t ls \<Rightarrow> ok (Arr (rotate_right t) (map rotate_right ls)) | _ \<Rightarrow> fails ''TypeError''),
     lib_chunk = (\<lambda>v chunks. ok v),
     lib_setitem = (\<lambda>v k w. case (v, w) of
        (Arr t ls, Arr t' ls') \<Rightarrow> if k = ''time'' then ok (Arr t' ls) else fails ''KeyError''
      | _ \<Rightarrow> fails ''TypeError''),
     lib_apply_ufunc = (\<lambda>m f v w dims dask dtypes. case (v, w) of
        (Arr t ls, Arr t' ls') \<Rightarrow>
          (case f (asarray ls) (asarray ls') of Inl e \<Rightarrow> fails ''ValueError'' | Inr c \<Rightarrow> ok (Res c))
      | _ \<Rightarrow> fails ''TypeError''),
     lib_lt = (\<lambda>v q. case v of
        Res c \<Rightarrow> ok (Mask (map (\<lambda>a. np_less a (Fin q)) c)) | _ \<Rightarrow> fails ''TypeError''),
     lib_where = (\<lambda>v m. case (v, m) of
        (Res c, Mask b) \<Rightarrow> ok (Res (map2 (\<lambda>a keep. if keep then a else NaN) c b))
      | _ \<Rightarrow> fails ''TypeError''),
     lib_plot = (\<lambda>v. ok Other),
     lib_config_set = (\<lambda>m kv g. (Inr Other, snd kv)),
     lib_numerics = exact (\<lambda>r i. NaN)
   \<rparr>"

text \<open>The same library with a \<^verbatim>\<open>persist\<close> that raises.\<close>

definition toy_out_of_memory :: "(tobj, string, string) library" where
  "toy_out_of_memory = toy\<lparr>lib_persist := (\<lambda>v. fails ''MemoryError'')\<rparr>"

text \<open>The same library where the module \<^verbatim>\<open>bottleneck\<close> is not installed.\<close>

definition toy_no_bottleneck :: "(tobj, string, string) library" where
  "toy_no_bottleneck =
     toy\<lparr>lib_import := (\<lambda>m. if m = ''bottleneck'' then fails ''ModuleNotFoundError'' else ok Other)\<rparr>"

section \<open>The library operations on finite entries\<close>

lemma collect_Inr: "collect (map (\<lambda>a. Inr (g a)) xs) = Inr (map g xs)"
  by (induction xs) simp_all

lemma lane_sum_Fin: "lane_sum (map Fin r) = Fin (sum_list r)"
  by (induction r) (simp_all add: lane_sum_def)

lemma lane_mean_Fin: "lane_mean (map Fin r) = (if r = [] then NaN else Fin (avg r))"
  by (simp add: lane_mean_def lane_sum_Fin avg_def)

lemma sum_list_sq_nonneg: "0 \<le> sum_list (map (\<lambda>a. (a - c)\<^sup>2) (r::real list))"
  by (induction r) simp_all

lemma lane_std_Fin: "lane_std (map Fin r) = (if r = [] then NaN else Fin (pstdev r))"
proof (cases "r = []")
  case True
  then show ?thesis by (simp add: lane_std_def lane_mean_def lane_sum_def)
next
  case False
  have sq: "map (\<lambda>v. np_multiply v v) (map (\<lambda>v. np_subtract v (Fin (avg r))) (map Fin r))
        = map Fin (map (\<lambda>a. (a - avg r)\<^sup>2) r)"
    by (simp add: np_subtract_def power2_eq_square)
  have nn: "0 \<le> avg (map (\<lambda>a. (a - avg r)\<^sup>2) r)"
    unfolding avg_def by (intro divide_nonneg_nonneg sum_list_sq_nonneg) simp
  from False nn show ?thesis
    unfolding lane_std_def Let_def lane_mean_Fin[of r]
    by (simp add: sq lane_mean_Fin pstdev_def del: map_map)
qed

lemma elementwise1_same: "length xs = length ys \<Longrightarrow> elementwise1 f xs ys = Inr (map2 f xs ys)"
proof -
  assume "length xs = length ys"
  then have "elementwise1 f xs ys = collect (map (\<lambda>p. Inr (case p of (a, b) \<Rightarrow> f a b)) (zip xs ys))"
    by (simp add: elementwise1_def broadcast_def case_prod_unfold)
  then show ?thesis by (simp only: collect_Inr)
qed

lemma elementwise1_single: "elementwise1 f xs [c] = Inr (map (\<lambda>a. f a c) xs)"
proof (cases "length xs = 1")
  case True
  then obtain a where "xs = [a]" by (cases xs) auto
  then show ?thesis by (simp add: elementwise1_def broadcast_def)
next
  case False
  then show ?thesis by (simp add: elementwise1_def broadcast_def collect_Inr)
qed

lemma elementwise2_keepdims:
  "elementwise2 f x (map (\<lambda>r. [g r]) x) = Inr (map (\<lambda>r. map (\<lambda>v. f v (g r)) r) x)"
proof -
  have "map2 (elementwise1 f) x (map (\<lambda>r. [g r]) x)
        = map (\<lambda>r. Inr (map (\<lambda>v. f v (g r)) r)) x"
    by (induction x) (simp_all add: elementwise1_single)
  then show ?thesis
    by (simp add: elementwise2_def broadcast_def collect_Inr)
qed

lemma elementwise2_same:
  assumes "list_all2 (\<lambda>r s. length r = length s) x y"
  shows "elementwise2 f x y = Inr (map2 (map2 f) x y)"
proof -
  from assms have "collect (map2 (elementwise1 f) x y) = Inr (map2 (map2 f) x y)"
    by (induction rule: list_all2_induct) (simp_all add: elementwise1_same)
  moreover from assms have "length x = length y" by (rule list_all2_lengthD)
  ultimately show ?thesis
    by (simp add: elementwise2_def broadcast_def)
qed

lemma centred_Fin: "centred (map Fin r) = map Fin (map (\<lambda>a. a - avg r) r)"
  by (cases "r = []") (simp_all add: centred_def lane_mean_Fin np_subtract_def)

lemma map2_multiply_Fin:
  "map2 np_multiply (map Fin as) (map Fin bs) = map Fin (map2 (*) as bs)"
  by (induction as arbitrary: bs) (auto simp: zip_Cons1 split: list.splits)

lemma map2_centred:
  "map2 (*) (map (\<lambda>a. a - c) r) (map (\<lambda>b. b - d) s) = map2 (\<lambda>a b. (a - c) * (b - d)) r (s::real list)"
  by (induction r arbitrary: s) (auto simp: zip_Cons1 split: list.splits)

lemma lane_cov_Fin:
  assumes "length r = length s"
  shows "lane_mean (map2 np_multiply (centred (map Fin r)) (centred (map Fin s)))
         = (if r = [] then NaN else Fin (pcov r s))"
proof (cases "r = []")
  case True
  then show ?thesis by (simp add: centred_def lane_mean_def lane_sum_def)
next
  case False
  with assms have ne: "map2 (\<lambda>a b. (a - avg r) * (b - avg s)) r s \<noteq> []"
    by (cases r; cases s) simp_all
  have "lane_mean (map2 np_multiply (centred (map Fin r)) (centred (map Fin s)))
        = lane_mean (map Fin (map2 (\<lambda>a b. (a - avg r) * (b - avg s)) r s))"
    by (simp only: centred_Fin map2_multiply_Fin map2_centred)
  also have "\<dots> = Fin (pcov r s)"
    using ne by (simp only: lane_mean_Fin pcov_def if_False)
  finally show ?thesis using False by simp
qed

lemma covariance_general:
  assumes "list_all2 (\<lambda>r s. length r = length s) x y"
  shows "covariance_gufunc x y
         = Inr (map2 (\<lambda>r s. lane_mean (map2 np_multiply (centred r) (centred s))) x y)"
proof -
  have dx: "elementwise2 np_subtract x (mean_keepdims x) = Inr (map centred x)"
    unfolding mean_keepdims_def elementwise2_keepdims centred_def ..
  have dy: "elementwise2 np_subtract y (mean_keepdims y) = Inr (map centred y)"
    unfolding mean_keepdims_def elementwise2_keepdims centred_def ..
  from assms have "list_all2 (\<lambda>r s. length r = length s) (map centred x) (map centred y)"
    by (simp add: list_all2_map1 list_all2_map2 centred_def)
  then have p: "elementwise2 np_multiply (map centred x) (map centred y)
        = Inr (map2 (map2 np_multiply) (map centred x) (map centred y))"
    by (rule elementwise2_same)
  have "mean_last (map2 (map2 np_multiply) (map centred x) (map centred y))
        = map2 (\<lambda>r s. lane_mean (map2 np_multiply (centred r) (centred s))) x y"
    by (simp add: mean_last_def zip_map_map case_prod_unfold)
  then show ?thesis
    by (simp add: covariance_gufunc_def dx dy p)
qed

lemma covariance_finite:
  assumes "list_all2 (\<lambda>r s. length r = length s) x y"
  shows "covariance_gufunc (asarray x) (asarray y)
         = Inr (map2 (\<lambda>r s. if r = [] then NaN else Fin (pcov r s)) x y)"
proof -
  from assms have "list_all2 (\<lambda>r s. length r = length s) (asarray x) (asarray y)"
    by (simp add: asarray_def list_all2_map1 list_all2_map2)
  then have "covariance_gufunc (asarray x) (asarray y)
      = Inr (map2 (\<lambda>r s. lane_mean (map2 np_multiply (centred r) (centred s))) (asarray x) (asarray y))"
    by (rule covariance_general)
  also from assms have "map2 (\<lambda>r s. lane_mean (map2 np_multiply (centred r) (centred s))) (asarray x) (asarray y)
      = map2 (\<lambda>r s. if r = [] then NaN else Fin (pcov r s)) x y"
    unfolding asarray_def
    by (induction rule: list_all2_induct) (simp_all add: lane_cov_Fin)
  finally show ?thesis .
qed

lemma sum_list_const: "\<forall>a\<in>set r. a = c \<Longrightarrow> sum_list r = real (length r) * (c::real)"
  by (induction r) (simp_all add: algebra_simps)

lemma constant_lane_avg: "constant_lane r \<longleftrightarrow> (\<forall>a\<in>set r. a = avg r)"
proof
  assume c: "constant_lane r"
  show "\<forall>a\<in>set r. a = avg r"
  proof (cases r)
    case Nil
    then show ?thesis by simp
  next
    case (Cons h t)
    with c have all: "\<forall>a\<in>set r. a = h" by (auto simp: constant_lane_def)
    then have "sum_list r = real (length r) * h" by (rule sum_list_const)
    with Cons have "avg r = h" by (simp add: avg_def)
    with all show ?thesis by simp
  qed
next
  assume "\<forall>a\<in>set r. a = avg r"
  then have "\<And>a b. a \<in> set r \<Longrightarrow> b \<in> set r \<Longrightarrow> a = b" by metis
  then show "constant_lane r" by (simp add: constant_lane_def)
qed

lemma sum_list_sq_zero:
  "sum_list (map (\<lambda>a. (a - c)\<^sup>2) (r::real list)) = 0 \<longleftrightarrow> (\<forall>a\<in>set r. a = c)"
proof (induction r)
  case Nil
  then show ?case by simp
next
  case (Cons h t)
  have "0 \<le> (h - c)\<^sup>2" by simp
  moreover have "0 \<le> sum_list (map (\<lambda>a. (a - c)\<^sup>2) t)" by (rule sum_list_sq_nonneg)
  ultimately have "(h - c)\<^sup>2 + sum_list (map (\<lambda>a. (a - c)\<^sup>2) t) = 0
      \<longleftrightarrow> (h - c)\<^sup>2 = 0 \<and> sum_list (map (\<lambda>a. (a - c)\<^sup>2) t) = 0"
    by (rule add_nonneg_eq_0_iff)
  with Cons.IH show ?case by simp
qed

lemma pstdev_nonneg: "0 \<le> pstdev r"
  unfolding pstdev_def avg_def
  by (intro real_sqrt_ge_zero divide_nonneg_nonneg sum_list_sq_nonneg) simp

lemma pstdev_zero_iff: "pstdev r = 0 \<longleftrightarrow> constant_lane r"
proof (cases "r = []")
  case True
  then show ?thesis by (simp add: pstdev_def avg_def constant_lane_def)
next
  case False
  then have "pstdev r = 0 \<longleftrightarrow> sum_list (map (\<lambda>a. (a - avg r)\<^sup>2) r) = 0"
    by (simp add: pstdev_def avg_def[of "map _ _"])
  then show ?thesis by (simp add: sum_list_sq_zero constant_lane_avg)
qed

lemma sum_list_quadratic:
  "length as = length bs \<Longrightarrow>
   sum_list (map2 (\<lambda>a b. (p * b - q * a)\<^sup>2) as bs)
   = p\<^sup>2 * sum_list (map (\<lambda>b. b\<^sup>2) bs) - 2 * p * q * sum_list (map2 (*) as bs)
     + q\<^sup>2 * sum_list (map (\<lambda>a. a\<^sup>2) as)" for p q :: real
  by (induction as bs rule: list_induct2) (simp_all add: algebra_simps power2_eq_square)

lemma sum_list_map2_sq_nonneg: "0 \<le> sum_list (map2 (\<lambda>a b. (f a b :: real)\<^sup>2) as bs)"
  by (induction as arbitrary: bs) (auto simp: zip_Cons1 split: list.splits)

lemma sum_list_prod_zero:
  "sum_list (map (\<lambda>a. a\<^sup>2) as) = 0 \<Longrightarrow> sum_list (map2 (*) as bs) = (0::real)"
proof -
  assume "sum_list (map (\<lambda>a. a\<^sup>2) as) = 0"
  then have "sum_list (map (\<lambda>a. (a - 0)\<^sup>2) as) = 0" by simp
  then have z: "\<forall>a\<in>set as. a = 0" by (simp only: sum_list_sq_zero)
  then show ?thesis
    by (induction as arbitrary: bs) (auto simp: zip_Cons1 split: list.splits)
qed

lemma cauchy_schwarz_list:
  fixes as bs :: "real list"
  assumes len: "length as = length bs"
  shows "(sum_list (map2 (*) as bs))\<^sup>2 \<le> sum_list (map (\<lambda>a. a\<^sup>2) as) * sum_list (map (\<lambda>b. b\<^sup>2) bs)"
proof -
  define A where "A = sum_list (map (\<lambda>a. a\<^sup>2) as)"
  define B where "B = sum_list (map2 (*) as bs)"
  define C where "C = sum_list (map (\<lambda>b. b\<^sup>2) bs)"
  have A0: "0 \<le> A" using sum_list_sq_nonneg[of 0 as] by (simp add: A_def)
  show ?thesis
  proof (cases "A = 0")
    case True
    then have "B = 0" unfolding A_def B_def by (rule sum_list_prod_zero)
    with True show ?thesis by (simp add: A_def[symmetric] B_def[symmetric])
  next
    case False
    with A0 have Apos: "0 < A" by simp
    have "0 \<le> sum_list (map2 (\<lambda>a b. (A * b - B * a)\<^sup>2) as bs)"
      by (rule sum_list_map2_sq_nonneg)
    also have "\<dots> = A\<^sup>2 * C - 2 * A * B * B + B\<^sup>2 * A"
      using len by (simp add: sum_list_quadratic A_def[symmetric] B_def[symmetric] C_def[symmetric])
    also have "\<dots> = A * (A * C - B\<^sup>2)"
      by (simp add: algebra_simps power2_eq_square)
    finally have "0 \<le> A * (A * C - B\<^sup>2)" .
    with Apos have "0 \<le> A * C - B\<^sup>2"
      by (simp add: zero_le_mult_iff)
    then show ?thesis by (simp add: A_def B_def C_def)
  qed
qed

lemma pcov_le_pstdev:
  assumes len: "length r = length s"
  shows "\<bar>pcov r s\<bar> \<le> pstdev r * pstdev s"
proof -
  define as where "as = map (\<lambda>a. a - avg r) r"
  define bs where "bs = map (\<lambda>b. b - avg s) s"
  define n where "n = real (length r)"
  have n0: "0 \<le> n" by (simp add: n_def)
  have len': "length as = length bs" using len by (simp add: as_def bs_def)
  have B: "pcov r s = sum_list (map2 (*) as bs) / n"
    using len by (simp add: pcov_def avg_def as_def bs_def map2_centred n_def)
  have A: "pstdev r = sqrt (sum_list (map (\<lambda>a. a\<^sup>2) as) / n)"
    by (simp add: pstdev_def avg_def as_def n_def comp_def)
  have C: "pstdev s = sqrt (sum_list (map (\<lambda>b. b\<^sup>2) bs) / n)"
    using len by (simp add: pstdev_def avg_def bs_def n_def comp_def)
  define X where "X = sum_list (map (\<lambda>a. a\<^sup>2) as) / n"
  define Y where "Y = sum_list (map (\<lambda>b. b\<^sup>2) bs) / n"
  have "(pcov r s)\<^sup>2 = (sum_list (map2 (*) as bs))\<^sup>2 / n\<^sup>2"
    by (simp add: B power_divide)
  also have "\<dots> \<le> (sum_list (map (\<lambda>a. a\<^sup>2) as) * sum_list (map (\<lambda>b. b\<^sup>2) bs)) / n\<^sup>2"
    by (intro divide_right_mono cauchy_schwarz_list len') simp
  also have "\<dots> = X * Y"
    by (simp add: power2_eq_square X_def Y_def)
  finally have "sqrt ((pcov r s)\<^sup>2) \<le> sqrt (X * Y)"
    by (simp only: real_sqrt_le_iff)
  then have "\<bar>pcov r s\<bar> \<le> sqrt X * sqrt Y"
    by (simp only: real_sqrt_abs real_sqrt_mult)
  then show ?thesis
    by (simp only: A C X_def Y_def)
qed

lemma pearson_r_bounds:
  assumes "length r = length s"
  shows "- 1 \<le> pearson_r r s \<and> pearson_r r s \<le> 1"
proof (cases "pstdev r * pstdev s = 0")
  case True
  then have "pearson_r r s = 0" by (simp only: pearson_r_def div_by_0)
  then show ?thesis by simp
next
  case False
  moreover have "0 \<le> pstdev r * pstdev s"
    by (intro mult_nonneg_nonneg pstdev_nonneg)
  ultimately have pos: "0 < pstdev r * pstdev s" by (rule order.not_eq_order_implies_strict[OF not_sym])
  from pcov_le_pstdev[OF assms] have "\<bar>pcov r s\<bar> / (pstdev r * pstdev s) \<le> 1"
    using pos by (simp add: divide_le_eq)
  then have "\<bar>pearson_r r s\<bar> \<le> 1"
    using pos by (simp add: pearson_r_def abs_divide del: abs_mult)
  then show ?thesis by (simp add: abs_le_iff)
qed

lemma map2_map2_map:
  "length x = length y \<Longrightarrow>
   map2 f (map2 g x y) (map2 h (map a x) (map b y)) = map2 (\<lambda>r s. f (g r s) (h (a r) (b s))) x y"
  by (induction x y rule: list_induct2) simp_all

lemma pearson_general:
  assumes "list_all2 (\<lambda>r s. length r = length s) x y"
  shows "pearson_correlation_gufunc x y
         = Inr (map2 (\<lambda>r s. np_true_divide (lane_mean (map2 np_multiply (centred r) (centred s)))
                                 (np_multiply (lane_std r) (lane_std s))) x y)"
proof -
  from assms have len: "length x = length y" by (rule list_all2_lengthD)
  have d: "elementwise1 np_multiply (std_last x) (std_last y)
           = Inr (map2 np_multiply (map lane_std x) (map lane_std y))"
    using len by (simp add: elementwise1_same std_last_def)
  have q: "elementwise1 np_true_divide
             (map2 (\<lambda>r s. lane_mean (map2 np_multiply (centred r) (centred s))) x y)
             (map2 np_multiply (map lane_std x) (map lane_std y))
           = Inr (map2 np_true_divide
                   (map2 (\<lambda>r s. lane_mean (map2 np_multiply (centred r) (centred s))) x y)
                   (map2 np_multiply (map lane_std x) (map lane_std y)))"
    using len by (intro elementwise1_same) simp
  show ?thesis
    unfolding pearson_correlation_gufunc_def covariance_general[OF assms] d
    by (simp only: sum.case q map2_map2_map[OF len])
qed

lemma pcov_zero:
  assumes "length r = length s" and "pstdev r * pstdev s = 0"
  shows "pcov r s = 0"
  using pcov_le_pstdev[OF assms(1)] assms(2) by simp

lemma pearson_lane_Fin:
  assumes len: "length r = length s"
  shows "np_true_divide (lane_mean (map2 np_multiply (centred (map Fin r)) (centred (map Fin s))))
           (np_multiply (lane_std (map Fin r)) (lane_std (map Fin s)))
         = pearson_lane r s"
proof (cases "r = []")
  case True
  with len have "s = []" by simp
  with True show ?thesis
    by (simp add: pearson_lane_def centred_def lane_mean_def lane_sum_def lane_std_def)
next
  case False
  with len have s: "s \<noteq> []" by auto
  show ?thesis
  proof (cases "pstdev r * pstdev s = 0")
    case True
    with len have "pcov r s = 0" by (rule pcov_zero)
    with True False s show ?thesis
      by (simp add: pearson_lane_def lane_cov_Fin[OF len] lane_std_Fin del: mult_eq_0_iff)
  next
    case nz: False
    with False s show ?thesis
      by (simp add: pearson_lane_def lane_cov_Fin[OF len] lane_std_Fin pearson_r_def del: mult_eq_0_iff)
  qed
qed

lemma pearson_finite:
  assumes "list_all2 (\<lambda>r s. length r = length s) x y"
  shows "pearson_correlation_gufunc (asarray x) (asarray y) = Inr (map2 pearson_lane x y)"
proof -
  from assms have "list_all2 (\<lambda>r s. length r = length s) (asarray x) (asarray y)"
    by (simp add: asarray_def list_all2_map1 list_all2_map2)
  then have "pearson_correlation_gufunc (asarray x) (asarray y)
      = Inr (map2 (\<lambda>r s. np_true_divide (lane_mean (map2 np_multiply (centred r) (centred s)))
                                 (np_multiply (lane_std r) (lane_std s))) (asarray x) (asarray y))"
    by (rule pearson_general)
  also from assms have "map2 (\<lambda>r s. np_true_divide (lane_mean (map2 np_multiply (centred r) (centred s)))
                                 (np_multiply (lane_std r) (lane_std s))) (asarray x) (asarray y)
      = map2 pearson_lane x y"
    unfolding asarray_def
    by (induction rule: list_all2_induct) (simp_all add: pearson_lane_Fin)
  finally show ?thesis .
qed

lemma has_shape_all2:
  "has_shape m n x \<Longrightarrow> has_shape m n y \<Longrightarrow> list_all2 (\<lambda>r s. length r = length s) x y"
  by (simp add: has_shape_def list_all2_conv_all_nth list_all_length)

lemma filter_less_eq_split:
  "length (filter (\<lambda>u. u < a) r) + length (filter (\<lambda>u. u = a) r)
   \<le> length (filter (\<lambda>u. u < b) r)" if "a < b" for a b :: real
  using that by (induction r) auto

lemma filter_eq_pos: "a \<in> set r \<Longrightarrow> 0 < length (filter (\<lambda>u. u = a) r)"
  by (induction r) auto

lemma rank_arith:
  "la + ea \<le> lb \<Longrightarrow> 0 < ea \<Longrightarrow> 0 < eb \<Longrightarrow> la + (ea + 1) / 2 < lb + (eb + 1) / 2"
  for la ea lb eb :: real
  by (simp add: field_simps)

lemma lane_rank_strict_mono:
  assumes "a < b" and "a \<in> set r" and "b \<in> set r"
  shows "lane_rank r a < lane_rank r b"
proof -
  have 1: "real (length (filter (\<lambda>u. u < a) r)) + real (length (filter (\<lambda>u. u = a) r))
        \<le> real (length (filter (\<lambda>u. u < b) r))"
    using filter_less_eq_split[OF assms(1), of r] by linarith
  have 2: "0 < real (length (filter (\<lambda>u. u = a) r))" using filter_eq_pos[OF assms(2)] by simp
  have 3: "0 < real (length (filter (\<lambda>u. u = b) r))" using filter_eq_pos[OF assms(3)] by simp
  from 1 2 3 show ?thesis unfolding lane_rank_def by (rule rank_arith)
qed

lemma rank_not_constant:
  assumes "\<not> constant_lane r"
  shows "\<not> constant_lane (map (lane_rank r) r)"
proof -
  from assms obtain a b where ab: "a \<in> set r" "b \<in> set r" "a \<noteq> b"
    by (auto simp: constant_lane_def)
  have "\<exists>p\<in>set r. \<exists>q\<in>set r. lane_rank r p \<noteq> lane_rank r q"
  proof (cases "a < b")
    case True
    from lane_rank_strict_mono[OF True ab(1) ab(2)] ab show ?thesis by force
  next
    case False
    with ab have "b < a" by simp
    from lane_rank_strict_mono[OF this ab(2) ab(1)] ab show ?thesis by force
  qed
  then show ?thesis by (auto simp: constant_lane_def)
qed

lemma rankdata_asarray: "rankdata x = asarray (map (\<lambda>r. map (lane_rank r) r) x)"
  by (simp add: rankdata_def asarray_def)

lemma spearman_finite:
  assumes "list_all2 (\<lambda>r s. length r = length s) x y"
  shows "spearman_correlation_gufunc x y
         = Inr (map2 (\<lambda>r s. pearson_lane (map (lane_rank r) r) (map (lane_rank s) s)) x y)"
proof -
  from assms have a: "list_all2 (\<lambda>r s. length r = length s)
      (map (\<lambda>r. map (lane_rank r) r) x) (map (\<lambda>r. map (lane_rank r) r) y)"
    by (simp add: list_all2_map1 list_all2_map2)
  show ?thesis
    unfolding spearman_correlation_gufunc_def Let_def rankdata_asarray pearson_finite[OF a]
    by (simp add: zip_map_map case_prod_unfold)
qed

lemma np_multiply_commute: "np_multiply a b = np_multiply b a"
  by (cases a; cases b) (simp_all add: mult.commute)

lemma collect_map2_commute:
  assumes "\<And>a b. f a b = g b a"
  shows "collect (map2 f xs ys) = collect (map2 g ys xs)"
proof -
  have "map2 f xs ys = map2 g ys xs"
    by (induction xs arbitrary: ys) (auto simp: zip_Cons1 assms split: list.splits)
  then show ?thesis by simp
qed

lemma broadcast_commute:
  assumes "\<And>a b. f a b = g b a"
  shows "broadcast f xs ys = broadcast g ys xs"
proof (cases "length xs = length ys")
  case True
  then show ?thesis
    by (simp add: broadcast_def collect_map2_commute[of f g, OF assms])
next
  case False
  have "f (hd xs) = (\<lambda>b. g b (hd xs))" and "(\<lambda>a. f a (hd ys)) = g (hd ys)"
    by (rule ext, rule assms)+
  with False show ?thesis
    by (simp add: broadcast_def)
qed

lemma elementwise1_commute:
  "(\<And>a b. f a b = f b a) \<Longrightarrow> elementwise1 f xs ys = elementwise1 f ys xs"
  unfolding elementwise1_def by (rule broadcast_commute) simp

lemma elementwise2_commute:
  "(\<And>a b. f a b = f b a) \<Longrightarrow> elementwise2 f x y = elementwise2 f y x"
  unfolding elementwise2_def by (rule broadcast_commute) (rule elementwise1_commute)

lemma subtract_mean: "elementwise2 np_subtract x (mean_keepdims x) = Inr (map centred x)"
  unfolding mean_keepdims_def elementwise2_keepdims centred_def ..

lemma covariance_commute: "covariance_gufunc x y = covariance_gufunc y x"
  unfolding covariance_gufunc_def subtract_mean
  by (simp add: elementwise2_commute[of np_multiply "map centred x", OF np_multiply_commute])

lemma pearson_commute: "pearson_correlation_gufunc x y = pearson_correlation_gufunc y x"
  unfolding pearson_correlation_gufunc_def
  by (simp only: covariance_commute[of x y]
      elementwise1_commute[of np_multiply "std_last x" "std_last y", OF np_multiply_commute])

lemma pstdev_Nil: "pstdev [] = 0"
  by (simp add: pstdev_def avg_def)

lemma map2_cong_set:
  assumes "\<And>r s. r \<in> set x \<Longrightarrow> s \<in> set y \<Longrightarrow> f r s = g r s"
  shows "map2 f x y = map2 g x y"
proof (rule map_cong[OF refl])
  fix p assume "p \<in> set (zip x y)"
  then have "fst p \<in> set x" and "snd p \<in> set y"
    by (auto dest: set_zip_leftD set_zip_rightD simp: prod_eq_iff[symmetric] intro: set_zip_leftD[of "fst p" "snd p"] set_zip_rightD[of "fst p" "snd p"])
  then show "(case p of (r, s) \<Rightarrow> f r s) = (case p of (r, s) \<Rightarrow> g r s)"
    by (simp add: case_prod_unfold assms)
qed

lemma list_all_map2:
  assumes "\<And>r s. r \<in> set x \<Longrightarrow> s \<in> set y \<Longrightarrow> P (f r s)"
  shows "list_all P (map2 f x y)"
  unfolding list_all_iff using assms by (auto dest: set_zip_leftD set_zip_rightD)

lemma pearson_lane_nonzero:
  assumes "pstdev r \<noteq> 0" and "pstdev s \<noteq> 0"
  shows "pearson_lane r s = Fin (pcov r s / (pstdev r * pstdev s))"
proof -
  from assms(1) have "r \<noteq> []" using pstdev_Nil by auto
  with assms show ?thesis by (simp add: pearson_lane_def pearson_r_def)
qed

lemma covariance_nonempty:
  assumes "list_all2 (\<lambda>r s. length r = length s) x y" and "list_all (\<lambda>r. r \<noteq> []) x"
  shows "covariance_gufunc (asarray x) (asarray y) = Inr (map2 (\<lambda>r s. Fin (pcov r s)) x y)"
proof -
  have "map2 (\<lambda>r s. if r = [] then NaN else Fin (pcov r s)) x y = map2 (\<lambda>r s. Fin (pcov r s)) x y"
    using assms(2) by (intro map2_cong_set) (simp add: list_all_iff)
  with covariance_finite[OF assms(1)] show ?thesis by simp
qed

lemma pearson_nonzero:
  assumes "list_all2 (\<lambda>r s. length r = length s) x y"
    and "list_all (\<lambda>r. pstdev r \<noteq> 0) x" and "list_all (\<lambda>s. pstdev s \<noteq> 0) y"
  shows "pearson_correlation_gufunc (asarray x) (asarray y)
         = Inr (map2 (\<lambda>r s. Fin (pcov r s / (pstdev r * pstdev s))) x y)"
proof -
  have "map2 pearson_lane x y = map2 (\<lambda>r s. Fin (pcov r s / (pstdev r * pstdev s))) x y"
    using assms(2,3) by (intro map2_cong_set pearson_lane_nonzero) (simp_all add: list_all_iff)
  with pearson_finite[OF assms(1)] show ?thesis by simp
qed




lemma where_unit:
  assumes "list_all in_unit c"
  shows "where_lt_1 c = map (\<lambda>v. if v = Fin 1 then NaN else v) c"
  unfolding where_lt_1_def
proof (rule map_cong[OF refl])
  fix v assume "v \<in> set c"
  with assms have "in_unit v" by (simp add: list_all_iff)
  then obtain q where "v = Fin q" "q \<le> 1" by (cases v) (simp_all add: in_unit_def)
  then show "(if np_less v (Fin 1) then v else NaN) = (if v = Fin 1 then NaN else v)"
    by auto
qed

lemma pearson_lane_in_unit:
  assumes "length r = length s" and "\<not> constant_lane r" and "\<not> constant_lane s"
  shows "in_unit (pearson_lane r s)"
proof -
  from assms(2,3) have "pstdev r \<noteq> 0" "pstdev s \<noteq> 0" by (simp_all add: pstdev_zero_iff)
  moreover from assms(2) have "r \<noteq> []" by (auto simp: constant_lane_def)
  ultimately have "pearson_lane r s = Fin (pearson_r r s)" by (simp add: pearson_lane_def)
  with pearson_r_bounds[OF assms(1)] show ?thesis by (simp add: in_unit_def)
qed

lemma has_shape_lane: "has_shape m n x \<Longrightarrow> r \<in> set x \<Longrightarrow> length r = n"
  by (simp add: has_shape_def list_all_iff)

lemma spearman_example:
  "spearman_correlation_gufunc [[0, 2, 5], [1, 2, 3]] [[4, 0, 1], [10, 20, 30]]
   = Inr [Fin (- 1 / 2), Fin 1]"
  by (simp add: spearman_correlation_gufunc_def rankdata_def lane_rank_def
      pearson_correlation_gufunc_def covariance_gufunc_def elementwise2_def elementwise1_def
      broadcast_def mean_keepdims_def mean_last_def std_last_def lane_std_def lane_mean_def
      lane_sum_def np_subtract_def)

lemma sum_card_less:
  fixes S :: "real set" and g :: "nat \<Rightarrow> real"
  assumes "finite S"
  shows "(\<Sum>v\<in>S. g (card {u\<in>S. u < v})) = (\<Sum>i<card S. g i)"
  using assms
proof (induction rule: finite_linorder_max_induct)
  case empty
  then show ?case by simp
next
  case (insert b A)
  have b: "{u \<in> insert b A. u < b} = A" using insert.hyps by auto
  have A: "{u \<in> insert b A. u < v} = {u \<in> A. u < v}" if "v \<in> A" for v
    using insert.hyps that by force
  have nb: "b \<notin> A" using insert.hyps by auto
  have "(\<Sum>v\<in>insert b A. g (card {u \<in> insert b A. u < v}))
        = g (card {u \<in> insert b A. u < b}) + (\<Sum>v\<in>A. g (card {u \<in> insert b A. u < v}))"
    using insert.hyps(1) nb by (rule sum.insert)
  also have "\<dots> = g (card A) + (\<Sum>v\<in>A. g (card {u \<in> insert b A. u < v}))"
    by (simp only: b)
  also have "(\<Sum>v\<in>A. g (card {u \<in> insert b A. u < v})) = (\<Sum>v\<in>A. g (card {u \<in> A. u < v}))"
    by (rule sum.cong[OF refl]) (simp only: A)
  also have "\<dots> = (\<Sum>i<card A. g i)" by (rule insert.IH)
  finally show ?case using insert.hyps nb by simp
qed

lemma lane_rank_distinct:
  assumes "distinct r" and "v \<in> set r"
  shows "lane_rank r v = real (card {u \<in> set r. u < v}) + 1"
proof -
  have "length (filter (\<lambda>u. u < v) r) = card {u \<in> set r. u < v}"
    using assms(1) by (simp add: distinct_length_filter Int_def conj_commute)
  moreover have "length (filter (\<lambda>u. u = v) r) = 1"
  proof -
    have "length (filter (\<lambda>u. u = v) r) = card ({u. u = v} \<inter> set r)"
      using assms(1) by (rule distinct_length_filter)
    also have "{u. u = v} \<inter> set r = {v}" using assms(2) by auto
    finally show ?thesis by simp
  qed
  ultimately show ?thesis by (simp add: lane_rank_def)
qed

lemma sum_ranks_distinct:
  fixes g :: "real \<Rightarrow> real"
  assumes "distinct r"
  shows "sum_list (map (\<lambda>v. g (lane_rank r v)) r) = (\<Sum>i<length r. g (real i + 1))"
proof -
  have "sum_list (map (\<lambda>v. g (lane_rank r v)) r) = (\<Sum>v\<in>set r. g (lane_rank r v))"
    using assms by (rule sum_list_distinct_conv_sum_set)
  also have "\<dots> = (\<Sum>v\<in>set r. g (real (card {u \<in> set r. u < v}) + 1))"
    by (rule sum.cong) (simp_all add: lane_rank_distinct[OF assms])
  also have "\<dots> = (\<Sum>i<card (set r). g (real i + 1))"
    by (rule sum_card_less[of "set r" "\<lambda>i. g (real i + 1)"]) simp
  finally show ?thesis using assms by (simp add: distinct_card)
qed

lemma sum_first: "(\<Sum>i<n. real i + 1) = real n * (real n + 1) / 2"
  by (induction n) (simp_all add: field_simps)

lemma sum_first_sq: "(\<Sum>i<n. (real i + 1)\<^sup>2) = real n * (real n + 1) * (2 * real n + 1) / 6"
  by (induction n) (simp_all add: field_simps power2_eq_square)

lemma sum_list_dev_sq:
  "sum_list (map (\<lambda>a. (a - c)\<^sup>2) L)
   = sum_list (map (\<lambda>a. a\<^sup>2) L) - 2 * c * sum_list L + real (length L) * c\<^sup>2" for c :: real
  by (induction L) (simp_all add: algebra_simps power2_eq_square)

lemma sum_list_dev_prod:
  "length L = length M \<Longrightarrow>
   sum_list (map2 (\<lambda>a b. (a - c) * (b - d)) L M)
   = sum_list (map2 (*) L M) - d * sum_list L - c * sum_list M + real (length L) * c * d"
  for c d :: real
  by (induction L M rule: list_induct2) (simp_all add: algebra_simps)

lemma sum_list_diff_sq:
  "length L = length M \<Longrightarrow>
   sum_list (map2 (\<lambda>a b. (a - b)\<^sup>2) L M)
   = sum_list (map (\<lambda>a. a\<^sup>2) L) - 2 * sum_list (map2 (*) L M) + sum_list (map (\<lambda>b. b\<^sup>2) M)"
  for L M :: "real list"
  by (induction L M rule: list_induct2) (simp_all add: algebra_simps power2_eq_square)

lemma rank_sums:
  assumes "distinct r"
  shows "sum_list (map (lane_rank r) r) = real (length r) * (real (length r) + 1) / 2"
    and "sum_list (map (\<lambda>a. a\<^sup>2) (map (lane_rank r) r))
         = real (length r) * (real (length r) + 1) * (2 * real (length r) + 1) / 6"
proof -
  show "sum_list (map (lane_rank r) r) = real (length r) * (real (length r) + 1) / 2"
    using sum_ranks_distinct[OF assms, of "\<lambda>a. a"] by (simp add: sum_first)
  show "sum_list (map (\<lambda>a. a\<^sup>2) (map (lane_rank r) r))
         = real (length r) * (real (length r) + 1) * (2 * real (length r) + 1) / 6"
    using sum_ranks_distinct[OF assms, of "\<lambda>a. a\<^sup>2"] by (simp add: sum_first_sq comp_def)
qed

lemma rank_variance:
  assumes "distinct r" and "r \<noteq> []"
  shows "avg (map (lane_rank r) r) = (real (length r) + 1) / 2"
    and "avg (map (\<lambda>a. (a - avg (map (lane_rank r) r))\<^sup>2) (map (lane_rank r) r))
         = ((real (length r))\<^sup>2 - 1) / 12"
proof -
  define N where "N = real (length r)"
  from assms(2) have N: "0 < N" by (simp add: N_def)
  show mu: "avg (map (lane_rank r) r) = (real (length r) + 1) / 2"
    using N by (simp add: avg_def rank_sums(1)[OF assms(1)] N_def[symmetric])
  have "sum_list (map (\<lambda>a. (a - (N + 1) / 2)\<^sup>2) (map (lane_rank r) r))
      = N * (N + 1) * (2 * N + 1) / 6 - 2 * ((N + 1) / 2) * (N * (N + 1) / 2) + N * ((N + 1) / 2)\<^sup>2"
    unfolding sum_list_dev_sq rank_sums[OF assms(1)] by (simp add: N_def)
  also have "\<dots> = N * (N\<^sup>2 - 1) / 12"
    by (simp add: field_simps power2_eq_square)
  finally have "sum_list (map (\<lambda>a. (a - (N + 1) / 2)\<^sup>2) (map (lane_rank r) r)) / N = (N\<^sup>2 - 1) / 12"
    using N by simp
  then show "avg (map (\<lambda>a. (a - avg (map (lane_rank r) r))\<^sup>2) (map (lane_rank r) r))
         = ((real (length r))\<^sup>2 - 1) / 12"
    unfolding mu by (simp add: avg_def N_def)
qed

lemma spearman_classical:
  assumes len: "length r = length s" and dr: "distinct r" and ds: "distinct s"
    and two: "2 \<le> length r"
  shows "pearson_lane (map (lane_rank r) r) (map (lane_rank s) s) = Fin (spearman_classic r s)"
proof -
  define N where "N = real (length r)"
  define R where "R = map (lane_rank r) r"
  define S where "S = map (lane_rank s) s"
  define P where "P = sum_list (map2 (*) R S)"
  from two have N2: "2 \<le> N" by (simp add: N_def)
  from two have ne: "r \<noteq> []" "s \<noteq> []" using len by auto
  have lenRS: "length R = length S" "real (length R) = N" "real (length S) = N"
    using len by (simp_all add: R_def S_def N_def)
  have sums: "sum_list R = N * (N + 1) / 2" "sum_list S = N * (N + 1) / 2"
    "sum_list (map (\<lambda>a. a\<^sup>2) R) = N * (N + 1) * (2 * N + 1) / 6"
    "sum_list (map (\<lambda>a. a\<^sup>2) S) = N * (N + 1) * (2 * N + 1) / 6"
    using rank_sums[OF dr] rank_sums[OF ds] len by (simp_all add: R_def S_def N_def)
  have mu: "avg R = (N + 1) / 2" "avg S = (N + 1) / 2"
    using rank_variance(1)[OF dr ne(1)] rank_variance(1)[OF ds ne(2)] len
    by (simp_all add: R_def S_def N_def)
  have var: "pstdev R = sqrt ((N\<^sup>2 - 1) / 12)" "pstdev S = sqrt ((N\<^sup>2 - 1) / 12)"
    using rank_variance(2)[OF dr ne(1)] rank_variance(2)[OF ds ne(2)] len
    by (simp_all add: pstdev_def R_def S_def N_def)
  have pos: "0 < (N\<^sup>2 - 1) / 12"
  proof -
    have "1 < N * N" using N2 by (simp add: less_1_mult)
    then show ?thesis by (simp add: power2_eq_square)
  qed
  then have sd: "pstdev R * pstdev S = (N\<^sup>2 - 1) / 12"
    by (simp add: var)
  have cov: "pcov R S = (P - N * ((N + 1) / 2)\<^sup>2) / N"
  proof -
    have "sum_list (map2 (\<lambda>a b. (a - (N + 1) / 2) * (b - (N + 1) / 2)) R S)
        = P - (N + 1) / 2 * (N * (N + 1) / 2) - (N + 1) / 2 * (N * (N + 1) / 2)
          + N * ((N + 1) / 2) * ((N + 1) / 2)"
      unfolding sum_list_dev_prod[OF lenRS(1)] sums lenRS P_def ..
    also have "\<dots> = P - N * ((N + 1) / 2)\<^sup>2"
      by (simp add: field_simps power2_eq_square)
    finally have e: "sum_list (map2 (\<lambda>a b. (a - (N + 1) / 2) * (b - (N + 1) / 2)) R S)
        = P - N * ((N + 1) / 2)\<^sup>2" .
    have "pcov R S = avg (map2 (\<lambda>a b. (a - (N + 1) / 2) * (b - (N + 1) / 2)) R S)"
      by (simp only: pcov_def mu)
    also have "\<dots> = sum_list (map2 (\<lambda>a b. (a - (N + 1) / 2) * (b - (N + 1) / 2)) R S) / N"
      using lenRS by (simp add: avg_def)
    finally show ?thesis by (simp only: e)
  qed
  have D: "rank_diff_sq r s = N * (N + 1) * (2 * N + 1) / 3 - 2 * P"
  proof -
    have "rank_diff_sq r s = sum_list (map2 (\<lambda>a b. (a - b)\<^sup>2) R S)"
      by (simp add: rank_diff_sq_def R_def S_def zip_map_map case_prod_unfold comp_def)
    also have "\<dots> = N * (N + 1) * (2 * N + 1) / 6 - 2 * P + N * (N + 1) * (2 * N + 1) / 6"
      unfolding sum_list_diff_sq[OF lenRS(1)] sums P_def ..
    finally show ?thesis by (simp add: field_simps)
  qed
  have Ppart: "P = N * (N + 1) * (2 * N + 1) / 6 - rank_diff_sq r s / 2"
    unfolding D by (simp add: field_simps)
  have "N \<noteq> 0" using N2 by simp
  moreover have "N\<^sup>2 - 1 \<noteq> 0" using pos by (cases "N\<^sup>2 - 1 = 0") simp_all
  ultimately have N0: "N \<noteq> 0" "N\<^sup>2 - 1 \<noteq> 0" .
  have "pearson_r R S = spearman_classic r s"
    unfolding pearson_r_def sd cov spearman_classic_def N_def[symmetric] Ppart
    using N0 by (simp add: field_simps power2_eq_square)
  moreover have "pstdev R * pstdev S \<noteq> 0" unfolding sd using pos by (rule less_imp_neq[THEN not_sym])
  moreover have "R \<noteq> []" using ne by (simp add: R_def)
  ultimately show ?thesis
    by (simp add: pearson_lane_def R_def[symmetric] S_def[symmetric] del: mult_eq_0_iff)
qed

section \<open>The functions over the arithmetic of the library, lane by lane\<close>

lemma subtract_mean_fl:
  "elementwise2 (fl_subtract F) x (mean_keepdims_fl F x) = Inr (map (deviations F) x)"
  unfolding mean_keepdims_fl_def elementwise2_keepdims deviations_def ..

lemma lane_covariance_eta:
  "(\<lambda>r s. lane_mean_fl F (map2 (fl_multiply F) (deviations F r) (deviations F s))) = lane_covariance F"
  by (intro ext) (simp add: lane_covariance_def)

lemma lane_pearson_eta:
  "(\<lambda>r s. fl_true_divide F (lane_covariance F r s) (fl_multiply F (lane_std_fl F r) (lane_std_fl F s)))
   = lane_pearson F"
  by (intro ext) (simp add: lane_pearson_def)

lemma covariance_fl_general:
  assumes "list_all2 (\<lambda>r s. length r = length s) x y"
  shows "covariance_gufunc_fl F x y = Inr (map2 (lane_covariance F) (asfloat F x) (asfloat F y))"
proof -
  from assms have "list_all2 (\<lambda>r s. length r = length s)
      (map (deviations F) (asfloat F x)) (map (deviations F) (asfloat F y))"
    by (simp add: asfloat_def list_all2_map1 list_all2_map2 deviations_def)
  then have p: "elementwise2 (fl_multiply F) (map (deviations F) (asfloat F x)) (map (deviations F) (asfloat F y))
        = Inr (map2 (map2 (fl_multiply F)) (map (deviations F) (asfloat F x)) (map (deviations F) (asfloat F y)))"
    by (rule elementwise2_same)
  have "mean_last_fl F (map2 (map2 (fl_multiply F)) (map (deviations F) (asfloat F x)) (map (deviations F) (asfloat F y)))
        = map2 (\<lambda>r s. lane_mean_fl F (map2 (fl_multiply F) (deviations F r) (deviations F s))) (asfloat F x) (asfloat F y)"
    by (simp add: mean_last_fl_def zip_map_map case_prod_unfold)
  then show ?thesis
    by (simp add: covariance_gufunc_fl_def subtract_mean_fl p lane_covariance_eta)
qed

lemma pearson_fl_general:
  assumes "list_all2 (\<lambda>r s. length r = length s) x y"
  shows "pearson_correlation_gufunc_fl F x y = Inr (map2 (lane_pearson F) (asfloat F x) (asfloat F y))"
proof -
  from assms have len: "length (asfloat F x) = length (asfloat F y)"
    by (simp add: asfloat_def list_all2_lengthD)
  have d: "elementwise1 (fl_multiply F) (std_last_fl F (asfloat F x)) (std_last_fl F (asfloat F y))
           = Inr (map2 (fl_multiply F) (map (lane_std_fl F) (asfloat F x)) (map (lane_std_fl F) (asfloat F y)))"
    using len by (simp add: elementwise1_same std_last_fl_def)
  have q: "elementwise1 (fl_true_divide F)
             (map2 (lane_covariance F) (asfloat F x) (asfloat F y))
             (map2 (fl_multiply F) (map (lane_std_fl F) (asfloat F x)) (map (lane_std_fl F) (asfloat F y)))
           = Inr (map2 (fl_true_divide F)
                   (map2 (lane_covariance F) (asfloat F x) (asfloat F y))
                   (map2 (fl_multiply F) (map (lane_std_fl F) (asfloat F x)) (map (lane_std_fl F) (asfloat F y))))"
    using len by (intro elementwise1_same) simp
  show ?thesis
    unfolding pearson_correlation_gufunc_fl_def covariance_fl_general[OF assms] d
    by (simp only: sum.case q map2_map2_map[OF len] lane_pearson_eta)
qed

lemma rank_lane_length: "length (rank_lane F r) = length r"
  by (simp add: rank_lane_def Let_def)

lemma rankdata_fl_shape: "has_shape m n x \<Longrightarrow> has_shape m n (rankdata_fl F x)"
  by (simp add: has_shape_def rankdata_fl_def list_all_iff rank_lane_length)

lemma map2_maps: "map2 f (map a x) (map b y) = map2 (\<lambda>r s. f (a r) (b s)) x y"
  by (simp add: zip_map_map case_prod_unfold)

lemma spearman_fl_general:
  assumes "list_all2 (\<lambda>r s. length r = length s) x y"
  shows "spearman_correlation_gufunc_fl F x y
         = Inr (map2 (\<lambda>r s. lane_pearson F (map (fl_cast F) (rank_lane F r)) (map (fl_cast F) (rank_lane F s))) x y)"
proof -
  from assms have "list_all2 (\<lambda>r s. length r = length s) (rankdata_fl F x) (rankdata_fl F y)"
    by (simp add: rankdata_fl_def list_all2_map1 list_all2_map2 rank_lane_length)
  then have "pearson_correlation_gufunc_fl F (rankdata_fl F x) (rankdata_fl F y)
      = Inr (map2 (lane_pearson F) (asfloat F (rankdata_fl F x)) (asfloat F (rankdata_fl F y)))"
    by (rule pearson_fl_general)
  then show ?thesis
    by (simp add: spearman_correlation_gufunc_fl_def asfloat_def rankdata_fl_def map2_maps comp_def)
qed

subsection \<open>The ranks of a lane\<close>

lemma np_less_cases:
  assumes "u \<noteq> NaN" and "v \<noteq> NaN"
  shows "(if np_less u v then 1 else 0) + (if u = v then 1 else 0) + (if np_less v u then 1 else 0) = (1::nat)"
  using assms by (cases u; cases v) auto

lemma count_three:
  assumes "NaN \<notin> set c" and "v \<noteq> NaN"
  shows "length (filter (\<lambda>u. np_less u v) c) + length (filter (\<lambda>u. u = v) c)
         + length (filter (\<lambda>u. np_less v u) c) = length c"
  using assms(1)
proof (induction c)
  case Nil
  then show ?case by simp
next
  case (Cons a c)
  then have a: "a \<noteq> NaN" and c: "NaN \<notin> set c" by auto
  from np_less_cases[OF a assms(2)] Cons.IH[OF c] show ?case
    by (simp split: if_splits)
qed

lemma sum_list_indicator: "sum_list (map (\<lambda>v. if P v then 1 else 0) ys) = length (filter P ys)"
  by (induction ys) simp_all

lemma count_swap:
  "sum_list (map (\<lambda>v. length (filter (\<lambda>u. R u v) xs)) ys)
   = sum_list (map (\<lambda>u. length (filter (\<lambda>v. R u v) ys)) xs)"
proof (induction xs)
  case Nil
  then show ?case by simp
next
  case (Cons a xs)
  have "sum_list (map (\<lambda>v. length (filter (\<lambda>u. R u v) (a # xs))) ys)
        = sum_list (map (\<lambda>v. (if R a v then 1 else 0) + length (filter (\<lambda>u. R u v) xs)) ys)"
    by (intro arg_cong[of _ _ sum_list] map_cong) simp_all
  also have "\<dots> = length (filter (R a) ys) + sum_list (map (\<lambda>v. length (filter (\<lambda>u. R u v) xs)) ys)"
    by (simp add: sum_list_addf sum_list_indicator)
  finally show ?case by (simp add: Cons.IH)
qed

lemma sum_list_ranks:
  "sum_list (map (\<lambda>v. real (f v) + (real (g v) + 1) / 2) c)
   = real (sum_list (map f c)) + (real (sum_list (map g c)) + real (length c)) / 2"
  by (induction c) (simp_all add: field_simps)

lemma rank_sum:
  assumes "NaN \<notin> set c"
  shows "lane_sum (map (rank_value c) c) = Fin (real (length c) * (real (length c) + 1) / 2)"
proof -
  define L where "L = sum_list (map (\<lambda>v. length (filter (\<lambda>u. np_less u v) c)) c)"
  define E where "E = sum_list (map (\<lambda>v. length (filter (\<lambda>u. u = v) c)) c)"
  define G where "G = sum_list (map (\<lambda>v. length (filter (\<lambda>u. np_less v u) c)) c)"
  have LG: "L = G" unfolding L_def G_def by (rule count_swap[of "np_less" c c])
  have "L + E + G = sum_list (map (\<lambda>v. length (filter (\<lambda>u. np_less u v) c)
          + length (filter (\<lambda>u. u = v) c) + length (filter (\<lambda>u. np_less v u) c)) c)"
    by (simp add: L_def E_def G_def sum_list_addf)
  also have "\<dots> = sum_list (map (\<lambda>v. length c) c)"
    using assms by (intro arg_cong[of _ _ sum_list] map_cong refl count_three) auto
  also have "\<dots> = length c * length c" by (simp add: sum_list_triv)
  finally have "real (L + E + G) = real (length c * length c)" by simp
  with LG have t: "2 * real L + real E = real (length c) * real (length c)" by simp
  have "lane_sum (map (rank_value c) c)
        = lane_sum (map Fin (map (\<lambda>v. real (length (filter (\<lambda>u. np_less u v) c))
            + (real (length (filter (\<lambda>u. u = v) c)) + 1) / 2) c))"
    by (intro arg_cong[of _ _ lane_sum]) (simp add: rank_value_def)
  also have "\<dots> = Fin (real L + (real E + real (length c)) / 2)"
    by (simp only: lane_sum_Fin sum_list_ranks L_def E_def)
  also have "real L + (real E + real (length c)) / 2 = real (length c) * (real (length c) + 1) / 2"
    using t by (simp add: field_simps)
  finally show ?thesis .
qed

lemma rank_lane_sum:
  assumes "nan_free (map (fl_cast F) r)"
  shows "lane_sum (rank_lane F r) = Fin (real (length r) * (real (length r) + 1) / 2)"
  using assms rank_sum[of "map (fl_cast F) r"] by (simp add: rank_lane_def Let_def nan_free_def)

subsection \<open>Exact arithmetic as an instance\<close>

lemma lane_mean_fl_exact: "lane_mean_fl (exact nr) r = lane_mean r"
  by (simp add: lane_mean_fl_def lane_mean_def exact_def)

lemma deviations_exact: "deviations (exact nr) r = centred r"
  by (simp add: deviations_def centred_def lane_mean_fl_exact) (simp add: exact_def)

lemma lane_std_fl_exact: "lane_std_fl (exact nr) r = lane_std r"
  by (simp add: lane_std_fl_def lane_std_def Let_def deviations_exact lane_mean_fl_exact centred_def)
     (simp add: exact_def)

lemma asfloat_exact: "asfloat (exact nr) x = x"
  by (simp add: asfloat_def exact_def)

lemma covariance_exact: "covariance_gufunc_fl (exact nr) x y = covariance_gufunc x y"
proof -
  have m: "mean_keepdims_fl (exact nr) = mean_keepdims" "mean_last_fl (exact nr) = mean_last"
    by (intro ext, simp add: mean_keepdims_fl_def mean_keepdims_def mean_last_fl_def mean_last_def
        lane_mean_fl_exact)+
  have s: "fl_subtract (exact nr) = np_subtract" "fl_multiply (exact nr) = np_multiply"
    by (simp_all add: exact_def)
  show ?thesis
    unfolding covariance_gufunc_fl_def covariance_gufunc_def asfloat_exact m s ..
qed

lemma pearson_exact: "pearson_correlation_gufunc_fl (exact nr) x y = pearson_correlation_gufunc x y"
proof -
  have m: "std_last_fl (exact nr) = std_last"
    by (intro ext) (simp add: std_last_fl_def std_last_def lane_std_fl_exact)
  have s: "fl_true_divide (exact nr) = np_true_divide" "fl_multiply (exact nr) = np_multiply"
    by (simp_all add: exact_def)
  show ?thesis
    unfolding pearson_correlation_gufunc_fl_def pearson_correlation_gufunc_def asfloat_exact
      covariance_exact m s ..
qed

lemma rank_value_Fin: "rank_value (map Fin r) (Fin v) = Fin (lane_rank r v)"
proof -
  have "filter (\<lambda>u. np_less u (Fin v)) (map Fin r) = map Fin (filter (\<lambda>u. u < v) r)"
    "filter (\<lambda>u. u = Fin v) (map Fin r) = map Fin (filter (\<lambda>u. u = v) r)"
    by (simp_all add: filter_map comp_def)
  then show ?thesis by (simp add: rank_value_def lane_rank_def)
qed

lemma rankdata_exact: "rankdata_fl (exact nr) (asarray x) = rankdata x"
proof -
  have "rank_lane (exact nr) (map Fin r) = map (\<lambda>v. Fin (lane_rank r v)) r" for r
  proof -
    have "NaN \<notin> set (map Fin r)" by auto
    then show ?thesis
      by (simp add: rank_lane_def Let_def exact_def rank_value_Fin comp_def)
  qed
  then show ?thesis by (simp add: rankdata_fl_def asarray_def rankdata_def comp_def)
qed

lemma spearman_exact:
  "spearman_correlation_gufunc_fl (exact nr) (asarray x) (asarray y) = spearman_correlation_gufunc x y"
  by (simp add: spearman_correlation_gufunc_fl_def spearman_correlation_gufunc_def rankdata_exact
      pearson_exact)

text \<open>
  In exact arithmetic, on finite entries, the functions return the textbook quantities: the
  population covariance, Pearson's coefficient, and for lanes without ties the classical
  form of Spearman's coefficient.
\<close>

lemma exact_textbook:
  assumes "has_shape m n x" and "has_shape m n y"
    and "list_all (\<lambda>r. pstdev r \<noteq> 0) x" and "list_all (\<lambda>s. pstdev s \<noteq> 0) y"
  shows "covariance_gufunc_fl (exact nr) (asarray x) (asarray y) = Inr (map2 (\<lambda>r s. Fin (pcov r s)) x y)"
    and "pearson_correlation_gufunc_fl (exact nr) (asarray x) (asarray y)
           = Inr (map2 (\<lambda>r s. Fin (pcov r s / (pstdev r * pstdev s))) x y)"
proof -
  note sh = has_shape_all2[OF assms(1,2)]
  have "list_all (\<lambda>r. r \<noteq> []) x"
    using assms(3) pstdev_Nil by (auto simp: list_all_iff)
  with sh show "covariance_gufunc_fl (exact nr) (asarray x) (asarray y) = Inr (map2 (\<lambda>r s. Fin (pcov r s)) x y)"
    unfolding covariance_exact by (rule covariance_nonempty)
  from pearson_nonzero[OF sh assms(3,4)]
  show "pearson_correlation_gufunc_fl (exact nr) (asarray x) (asarray y)
           = Inr (map2 (\<lambda>r s. Fin (pcov r s / (pstdev r * pstdev s))) x y)"
    unfolding pearson_exact .
qed

lemma exact_spearman_classical:
  assumes "has_shape m n x" and "has_shape m n y" and "2 \<le> n"
    and "list_all distinct x" and "list_all distinct y"
  shows "spearman_correlation_gufunc_fl (exact nr) (asarray x) (asarray y)
           = Inr (map2 (\<lambda>r s. Fin (spearman_classic r s)) x y)"
proof -
  have "map2 (\<lambda>r s. pearson_lane (map (lane_rank r) r) (map (lane_rank s) s)) x y
        = map2 (\<lambda>r s. Fin (spearman_classic r s)) x y"
    using assms
    by (intro map2_cong_set spearman_classical) (simp_all add: has_shape_lane list_all_iff)
  with spearman_finite[OF has_shape_all2[OF assms(1,2)]] show ?thesis
    unfolding spearman_exact by simp
qed

subsection \<open>Rounding to binary64\<close>

lemma round_half_even_int: "round_half_even (of_int m) = m"
  by (simp add: round_half_even_def)


lemma floor_log2:
  assumes "2 powr of_int k \<le> \<bar>x\<bar>" and "\<bar>x\<bar> < 2 powr of_int (k + 1)"
  shows "\<lfloor>log 2 \<bar>x\<bar>\<rfloor> = k"
proof -
  have pos: "0 < \<bar>x\<bar>" using assms(1) by (smt (verit) powr_gt_zero)
  have "of_int k \<le> log 2 \<bar>x\<bar>" using assms(1) pos by (simp add: le_log_iff)
  moreover have "log 2 \<bar>x\<bar> < of_int (k + 1)" using assms(2) pos by (simp add: log_less_iff)
  ultimately show ?thesis by (simp add: floor_eq_iff)
qed

lemma rnd64_exact:
  assumes x: "x = of_int m * 2 powr of_int q" and m: "\<bar>m\<bar> < 2 ^ 53" and q: "- 1074 \<le> q"
    and fin: "\<bar>x\<bar> < 2 ^ 1024"
  shows "rnd64 x = Fin x"
proof (cases "x = 0")
  case True
  then show ?thesis by (simp add: rnd64_def)
next
  case False
  define k where "k = \<lfloor>log 2 \<bar>x\<bar>\<rfloor>"
  define e where "e = max (k - 52) (- 1074)"
  have pos: "0 < \<bar>x\<bar>" using False by simp
  have "\<bar>x\<bar> = of_int \<bar>m\<bar> * 2 powr of_int q" by (simp add: x abs_mult)
  also have "\<dots> < 2 ^ 53 * 2 powr of_int q"
    using m by (intro mult_strict_right_mono) (simp_all add: of_int_less_iff[where 'a=real, symmetric] del: of_int_less_iff)
  also have "\<dots> = 2 powr of_int (53 + q)"
    by (simp add: powr_add powr_realpow[symmetric])
  finally have "log 2 \<bar>x\<bar> < of_int (53 + q)" using pos by (simp add: log_less_iff)
  then have "k < 53 + q" unfolding k_def by (simp add: floor_less_iff)
  with q have eq: "e \<le> q" by (simp add: e_def)
  define j where "j = nat (q - e)"
  have qe: "q = e + int j" using eq by (simp add: j_def)
  have "x / 2 powr of_int e = of_int m * 2 powr (of_int q - of_int e)"
    by (simp add: x powr_diff)
  also have "\<dots> = of_int m * 2 ^ j"
    by (simp add: qe powr_realpow)
  also have "\<dots> = of_int (m * 2 ^ j)" by simp
  finally have r: "round_half_even (x / 2 powr of_int e) = m * 2 ^ j"
    by (simp only: round_half_even_int)
  have y: "of_int (m * 2 ^ j) * 2 powr of_int e = x"
    by (simp add: x qe powr_add powr_realpow)
  show ?thesis
    using False fin
    by (simp add: rnd64_def Let_def k_def[symmetric] e_def[symmetric] r y del: of_int_mult of_int_power)
qed

lemma rnd64_eq:
  assumes "x \<noteq> 0" and "\<lfloor>log 2 \<bar>x\<bar>\<rfloor> = k" and "e = max (k - 52) (- 1074)"
    and "round_half_even (x / 2 powr of_int e) = m" and "y = of_int m * 2 powr of_int e"
  shows "rnd64 x = (if 2 ^ 1024 \<le> \<bar>y\<bar> then (if 0 < x then PInf else NInf) else Fin y)"
  unfolding rnd64_def Let_def assms(2) assms(3)[symmetric] assms(4) assms(5)[symmetric]
  using assms(1) by simp


lemma rnd64_int: "\<bar>m\<bar> < 2 ^ 53 \<Longrightarrow> rnd64 (of_int m) = Fin (of_int m)"
proof -
  assume m: "\<bar>m\<bar> < 2 ^ 53"
  then have "\<bar>real_of_int m\<bar> < 2 ^ 53"
    by (simp add: of_int_less_iff[where 'a=real, symmetric] del: of_int_less_iff)
  also have "\<dots> < 2 ^ 1024" by simp
  finally have "\<bar>real_of_int m\<bar> < 2 ^ 1024" .
  with m show ?thesis by (intro rnd64_exact[of _ m 0]) simp_all
qed

lemma rnd64_dyadic:
  assumes "\<bar>m\<bar> < 2 ^ 53" and "j \<le> 1074"
  shows "rnd64 (of_int m / 2 ^ j) = Fin (of_int m / 2 ^ j)"
proof -
  have "\<bar>real_of_int m\<bar> < 2 ^ 53"
    using assms(1) by (simp add: of_int_less_iff[where 'a=real, symmetric] del: of_int_less_iff)
  also have "\<dots> < 2 ^ 1024" by simp
  finally have a: "\<bar>real_of_int m\<bar> < 2 ^ 1024" .
  have "\<bar>real_of_int m / 2 ^ j\<bar> \<le> \<bar>real_of_int m\<bar>"
    by (simp add: abs_divide pos_divide_le_eq mult_le_cancel_left1)
  with a have b: "\<bar>real_of_int m / 2 ^ j\<bar> < 2 ^ 1024" by simp
  have c: "real_of_int m / 2 ^ j = of_int m * 2 powr of_int (- int j)"
    by (simp add: powr_minus powr_realpow field_simps)
  show ?thesis
    using assms b by (intro rnd64_exact[of _ m "- int j"] c) simp_all
qed

lemma rnd64_pow2_overflow:
  assumes n: "1024 \<le> n"
  shows "rnd64 (2 ^ n) = PInf"
proof -
  have l: "\<lfloor>log 2 \<bar>2 ^ n :: real\<bar>\<rfloor> = int n"
    by (simp add: log_nat_power)
  from n have e: "int n - 52 = max (int n - 52) (- 1074)" by simp
  obtain j where j: "n = j + 52" using n by (intro that[of "n - 52"]) simp
  have p: "2 powr of_int (int n - 52) = (2::real) ^ j"
    by (simp add: j powr_realpow)
  have "(2::real) ^ n / 2 powr of_int (int n - 52) = 2 ^ 52"
    unfolding p by (simp add: j power_add)
  also have "\<dots> = of_int (2 ^ 52)" by simp
  finally have r: "round_half_even ((2::real) ^ n / 2 powr of_int (int n - 52)) = 2 ^ 52"
    by (simp only: round_half_even_int)
  have y: "(2::real) ^ n = of_int (2 ^ 52) * 2 powr of_int (int n - 52)"
    unfolding p by (simp add: j power_add)
  have big: "(2::real) ^ 1024 \<le> 2 ^ n" using n by (intro power_increasing) simp_all
  have "rnd64 (2 ^ n) = (if 2 ^ 1024 \<le> \<bar>2 ^ n :: real\<bar> then (if 0 < (2::real) ^ n then PInf else NInf) else Fin (2 ^ n))"
    by (rule rnd64_eq[OF _ l e r y]) simp
  with big show ?thesis by simp
qed

lemma rnd64_tie: "rnd64 (2 ^ 53 + 1) = Fin (2 ^ 53)"
proof -
  have "(2::real) powr of_int 53 = 2 ^ 53" "(2::real) powr of_int (53 + 1) = 2 ^ 54"
    by (simp_all add: powr_realpow[symmetric])
  then have l: "\<lfloor>log 2 \<bar>2 ^ 53 + 1 :: real\<bar>\<rfloor> = 53"
    by (intro floor_log2) simp_all
  have e: "1 = max (53 - 52) (- 1074 :: int)" by simp
  have r: "round_half_even ((2 ^ 53 + 1) / 2 powr of_int 1) = 2 ^ 52"
    by (simp add: round_half_even_def floor_eq_iff)
  have y: "(2::real) ^ 53 = of_int (2 ^ 52) * 2 powr of_int 1" by simp
  have "rnd64 (2 ^ 53 + 1) = (if 2 ^ 1024 \<le> \<bar>2 ^ 53 :: real\<bar> then (if 0 < (2::real) ^ 53 + 1 then PInf else NInf) else Fin (2 ^ 53))"
    by (rule rnd64_eq[OF _ l e r y]) simp
  then show ?thesis by simp
qed

lemma rounded_simps:
  "rounded (Fin a) = rnd64 a" "rounded PInf = PInf" "rounded NInf = NInf" "rounded NaN = NaN"
  by (simp_all add: rounded_def)

lemma rnd64_small_numbers:
  "rnd64 0 = Fin 0" "rnd64 1 = Fin 1" "rnd64 (- 1) = Fin (- 1)"
  "numeral k < (2 :: int) ^ 53 \<Longrightarrow> rnd64 (numeral k) = Fin (numeral k)"
  "numeral k < (2 :: int) ^ 53 \<Longrightarrow> rnd64 (- numeral k) = Fin (- numeral k)"
  "rnd64 (1 / 2) = Fin (1 / 2)" "rnd64 (- (1 / 2)) = Fin (- (1 / 2))"
  "rnd64 (1 / 4) = Fin (1 / 4)" "rnd64 (- (1 / 4)) = Fin (- (1 / 4))"
  "numeral k < (2 :: int) ^ 53 \<Longrightarrow> rnd64 (numeral k / 2) = Fin (numeral k / 2)"
  "numeral k < (2 :: int) ^ 53 \<Longrightarrow> rnd64 (- (numeral k / 2)) = Fin (- (numeral k / 2))"
  "numeral k < (2 :: int) ^ 53 \<Longrightarrow> rnd64 (numeral k / 4) = Fin (numeral k / 4)"
  "numeral k < (2 :: int) ^ 53 \<Longrightarrow> rnd64 (- (numeral k / 4)) = Fin (- (numeral k / 4))"
  using rnd64_int[of 0] rnd64_int[of 1] rnd64_int[of "- 1"]
    rnd64_int[of "numeral k"] rnd64_int[of "- numeral k"]
    rnd64_dyadic[of 1 1] rnd64_dyadic[of "- 1" 1] rnd64_dyadic[of 1 2] rnd64_dyadic[of "- 1" 2]
    rnd64_dyadic[of "numeral k" 1] rnd64_dyadic[of "- numeral k" 1]
    rnd64_dyadic[of "numeral k" 2] rnd64_dyadic[of "- numeral k" 2]
  by simp_all

subsection \<open>Some lanes in binary64\<close>

lemmas fl_eval = float64_short_def float64_def rounded_simps lane_mean_fl_def deviations_def
  lane_std_fl_def lane_covariance_def lane_pearson_def add_in_order_def np_subtract_def

lemma ordinary_lanes:
  "lane_covariance float64_short [Fin 1, Fin 1, Fin 1, Fin 1, Fin (- 4)] [Fin 3, Fin (- 3), Fin 1, Fin 0, Fin (- 1)] = Fin 1"
  "lane_std_fl float64_short [Fin 1, Fin 1, Fin 1, Fin 1, Fin (- 4)] = Fin 2"
  "lane_std_fl float64_short [Fin 3, Fin (- 3), Fin 1, Fin 0, Fin (- 1)] = Fin 2"
  "lane_pearson float64_short [Fin 1, Fin 1, Fin 1, Fin 1, Fin (- 4)] [Fin 3, Fin (- 3), Fin 1, Fin 0, Fin (- 1)] = Fin (1 / 4)"
  by (simp_all add: fl_eval rnd64_small_numbers)

text \<open>
  Overflow: the squares of \<open>2^512\<close> and \<open>-2^512\<close> are \<open>2^1024\<close>, which is an infinity in
  binary64, so the covariance of the lane with itself and its standard deviation are
  infinite and their quotient is \<^verbatim>\<open>nan\<close>.
\<close>

lemma overflow_lane:
  fixes b :: real
  assumes b: "b = 2 ^ 512"
  shows "fl_cast float64_short (Fin b) = Fin b" and "fl_cast float64_short (Fin (- b)) = Fin (- b)"
    and "lane_std_fl float64_short [Fin b, Fin (- b), Fin 0, Fin 0, Fin 0] = PInf"
    and "lane_covariance float64_short [Fin b, Fin (- b), Fin 0, Fin 0, Fin 0] [Fin b, Fin (- b), Fin 0, Fin 0, Fin 0] = PInf"
    and "lane_pearson float64_short [Fin b, Fin (- b), Fin 0, Fin 0, Fin 0] [Fin b, Fin (- b), Fin 0, Fin 0, Fin 0] = NaN"
proof -
  have r1: "rnd64 b = Fin b"
    using rnd64_exact[of b 1 512] by (simp add: b powr_realpow[symmetric])
  have r2: "rnd64 (- b) = Fin (- b)"
    using rnd64_exact[of "- b" "- 1" 512] by (simp add: b powr_realpow[symmetric])
  have "b * b = 2 ^ 1024" by (simp add: b power_add[symmetric] del: power_add)
  then have r3: "rnd64 (b * b) = PInf" using rnd64_pow2_overflow[of 1024] by simp
  show "fl_cast float64_short (Fin b) = Fin b" "fl_cast float64_short (Fin (- b)) = Fin (- b)"
    by (simp_all add: float64_short_def float64_def rounded_simps r1 r2)
  show a: "lane_std_fl float64_short [Fin b, Fin (- b), Fin 0, Fin 0, Fin 0] = PInf"
    by (simp add: fl_eval rnd64_small_numbers r1 r2 r3)
  show c: "lane_covariance float64_short [Fin b, Fin (- b), Fin 0, Fin 0, Fin 0] [Fin b, Fin (- b), Fin 0, Fin 0, Fin 0] = PInf"
    by (simp add: fl_eval rnd64_small_numbers r1 r2 r3)
  show "lane_pearson float64_short [Fin b, Fin (- b), Fin 0, Fin 0, Fin 0] [Fin b, Fin (- b), Fin 0, Fin 0, Fin 0] = NaN"
    unfolding lane_pearson_def a c
    by (simp add: float64_short_def float64_def rounded_simps)
qed


lemma rank_examples:
  "rank_lane float64_short [Fin 10, Fin 20, Fin 30, Fin 40, Fin 50, Fin 60, Fin 70]
   = [Fin 1, Fin 2, Fin 3, Fin 4, Fin 5, Fin 6, Fin 7]"
  "rank_lane float64_short [Fin 40, Fin 30, Fin 20, Fin 10, Fin 70, Fin 60, Fin 50]
   = [Fin 4, Fin 3, Fin 2, Fin 1, Fin 7, Fin 6, Fin 5]"
  "rank_lane float64_short [Fin 5, Fin 5, Fin 7, Fin 7] = [Fin (3 / 2), Fin (3 / 2), Fin (7 / 2), Fin (7 / 2)]"
  "rank_lane float64_short [Fin 9, Fin 9, Fin 2, Fin 2] = [Fin (7 / 2), Fin (7 / 2), Fin (3 / 2), Fin (3 / 2)]"
  "rank_lane float64_short [NInf, Fin 3, PInf, Fin 3] = [Fin 1, Fin (5 / 2), Fin 4, Fin (5 / 2)]"
  by (simp_all add: rank_lane_def rank_value_def float64_short_def float64_def rounded_simps
      rnd64_small_numbers)

text \<open>
  The integers \<open>2^53 + 1\<close> and \<open>2^53\<close> are the same float, so they tie.
\<close>

lemma rank_float_tie:
  "rank_lane float64_short [Fin (2 ^ 53 + 1), Fin (2 ^ 53), Fin 0] = [Fin (5 / 2), Fin (5 / 2), Fin 1]"
proof -
  define t :: real where "t = 2 ^ 53"
  have r1: "rnd64 (t + 1) = Fin t" unfolding t_def by (rule rnd64_tie)
  have r2: "rnd64 t = Fin t"
    using rnd64_exact[of t 1 53] by (simp add: t_def powr_realpow[symmetric])
  have pos: "0 < t" by (simp add: t_def)
  have "rank_lane float64_short [Fin (t + 1), Fin t, Fin 0] = [Fin (5 / 2), Fin (5 / 2), Fin 1]"
    using pos
    by (simp add: rank_lane_def rank_value_def float64_short_def float64_def rounded_simps
      rnd64_small_numbers r1 r2)
  then show ?thesis unfolding t_def .
qed

lemma rank_pearson_examples:
  "lane_pearson float64_short [Fin 1, Fin 2, Fin 3, Fin 4, Fin 5, Fin 6, Fin 7]
     [Fin 4, Fin 3, Fin 2, Fin 1, Fin 7, Fin 6, Fin 5] = Fin (1 / 2)"
  "lane_pearson float64_short [Fin (3 / 2), Fin (3 / 2), Fin (7 / 2), Fin (7 / 2)]
     [Fin (7 / 2), Fin (7 / 2), Fin (3 / 2), Fin (3 / 2)] = Fin (- 1)"
  by (simp_all add: fl_eval rnd64_small_numbers)

lemma cast_float64: "fl_cast float64_short v = rounded v"
  by (simp add: float64_short_def float64_def)

lemmas cast_small = cast_float64 rounded_simps rnd64_small_numbers

section \<open>The notebook: traces, names and the store\<close>

lemmas prog_defs = pbind_def call_def load_def assign_def ret_def discard_def display_def
  mutate_def enter_def spearman_correlation_def

lemmas line_defs = line_61_def line_63_def line_64_def line_66_def line_77_def line_158_def
    line_238_def line_243_def import_as_def from_import_def import_names.simps line_78_def line_79_def line_88_def line_89_def line_99_def
    line_109_def line_119_def line_128_def line_129_def line_138_def line_186_def line_195_def
    line_198_def line_199_def line_200_def line_204_def line_205_def line_206_def line_215_def
    line_239_def line_244_def

lemmas gufunc_defs = spearman_correlation_gufunc_def rankdata_def lane_rank_def
      pearson_correlation_gufunc_def covariance_gufunc_def elementwise2_def elementwise1_def
      broadcast_def mean_keepdims_def mean_last_def std_last_def lane_std_def lane_mean_def
      lane_sum_def np_subtract_def

lemma toy_gufunc:
  "spearman_correlation_gufunc_fl (exact nr) (asarray [[1, 2, 4], [3, 1, 2]]) (asarray [[4, 1, 2], [2, 3, 1]])
   = Inr [Fin (- 1 / 2), Fin (- 1 / 2)]"
  unfolding spearman_exact by (simp add: gufunc_defs)

lemma called_clean: "clean t \<Longrightarrow> map called t = t"
proof (induction t)
  case Nil
  then show ?case by simp
next
  case (Cons ev t)
  then show ?case by (cases ev) (simp_all add: clean_def)
qed

lemma clean_append: "clean (t @ u) \<longleftrightarrow> clean t \<and> clean u"
  by (simp add: clean_def)

lemma failing_append: "clean t \<Longrightarrow> failing u x \<Longrightarrow> failing (t @ u) x"
  by (cases x) (auto simp: failing_def clean_append butlast_append)

lemma emits_ret: "emits es es (ret v)"
  by (simp add: emits_def ret_def clean_def)

lemma emits_load: "emits es es (load n)"
  by (simp add: emits_def load_def clean_def failing_def split: option.splits)

lemma emits_assign: "emits es es (assign n r)"
  by (simp add: emits_def assign_def clean_def)

lemma emits_enter: "emits (Entered f # es) es (enter f)"
  by (simp add: emits_def enter_def clean_def)

lemma emits_call: "emits (Returned en # es) es (call en f)"
  by (auto simp: emits_def call_def clean_def failing_def split: prod.splits sum.splits)

lemma emits_mutate: "emits (Returned en # es) es (mutate en a f)"
  by (auto simp: emits_def mutate_def clean_def failing_def split: prod.splits sum.splits)

lemma emits_bind:
  assumes m: "emits es es1 m" and k: "\<And>v. emits es1 es2 (k v)"
  shows "emits es es2 (pbind m k)"
  unfolding emits_def
proof
  fix s
  obtain r s1 where ms: "m s = (r, s1)" by (cases "m s")
  show "case pbind m k s of
        (Inr v, s') \<Rightarrow> \<exists>t. trace s' = trace s @ t \<and> clean t \<and> es = t @ es2
      | (Inl x, s') \<Rightarrow> \<exists>t u. trace s' = trace s @ t \<and> es = map called t @ u \<and> failing t x"
  proof (cases r)
    case (Inl x)
    with m ms show ?thesis
      by (auto simp: emits_def pbind_def dest!: spec[of _ s])
  next
    case (Inr v)
    with m ms obtain t1 where t1: "trace s1 = trace s @ t1" "clean t1" "es = t1 @ es1"
      by (auto simp: emits_def dest!: spec[of _ s])
    obtain r2 s2 where ks: "k v s1 = (r2, s2)" by (cases "k v s1")
    have pk: "pbind m k s = (r2, s2)" using ms Inr ks by (simp add: pbind_def)
    show ?thesis
    proof (cases r2)
      case (Inl x)
      with k[of v] ks obtain t2 u where "trace s2 = trace s1 @ t2" "es1 = map called t2 @ u" "failing t2 x"
        by (auto simp: emits_def dest!: spec[of _ s1])
      with t1 have "trace s2 = trace s @ (t1 @ t2)" "es = map called (t1 @ t2) @ u" "failing (t1 @ t2) x"
        by (simp_all add: called_clean failing_append)
      with pk Inl show ?thesis by auto
    next
      case (Inr w)
      with k[of v] ks obtain t2 where "trace s2 = trace s1 @ t2" "clean t2" "es1 = t2 @ es2"
        by (auto simp: emits_def dest!: spec[of _ s1])
      with t1 have "trace s2 = trace s @ (t1 @ t2)" "clean (t1 @ t2)" "es = (t1 @ t2) @ es2"
        by (simp_all add: clean_append)
      with pk Inr show ?thesis by auto
    qed
  qed
qed

lemma emits_discard: "emits es es' m \<Longrightarrow> emits es es' (discard m)"
  unfolding discard_def by (rule emits_bind, assumption, rule emits_ret)

lemma emits_display: "emits (Returned Repr # es) es (display lib r)"
  unfolding display_def by (rule emits_discard) (rule emits_call)

lemma emits_spearman_correlation:
  "emits (Entered ''spearman_correlation'' # Returned Apply_ufunc # es) es (spearman_correlation lib x y d)"
  unfolding spearman_correlation_def
  by (rule emits_bind, rule emits_enter, rule emits_bind, rule emits_load, rule emits_call)

lemmas emits_rules = emits_bind emits_ret emits_load emits_assign emits_enter emits_call
  emits_mutate emits_discard emits_display emits_spearman_correlation

lemma emits_run_Nil: "emits_run es es []"
  by (simp add: emits_run_def clean_def)

lemma emits_run_Cons:
  assumes p: "emits es es1 p" and ps: "emits_run es1 es2 ps"
  shows "emits_run es es2 ((l, p) # ps)"
  unfolding emits_run_def
proof
  fix s
  obtain r s1 where ms: "p s = (r, s1)" by (cases "p s")
  show "case run ((l, p) # ps) s of
        (None, s') \<Rightarrow> \<exists>t. trace s' = trace s @ t \<and> clean t \<and> es = t @ es2
      | (Some x, s') \<Rightarrow> \<exists>t u. trace s' = trace s @ t \<and> es = map called t @ u \<and> failing t x"
  proof (cases r)
    case (Inl x)
    with p ms show ?thesis
      by (auto simp: emits_def dest!: spec[of _ s])
  next
    case (Inr v)
    with p ms obtain t1 where t1: "trace s1 = trace s @ t1" "clean t1" "es = t1 @ es1"
      by (auto simp: emits_def dest!: spec[of _ s])
    obtain r2 s2 where ks: "run ps s1 = (r2, s2)" by (cases "run ps s1")
    have pk: "run ((l, p) # ps) s = (r2, s2)" using ms Inr ks by simp
    show ?thesis
    proof (cases r2)
      case (Some x)
      with ps ks obtain t2 u where "trace s2 = trace s1 @ t2" "es1 = map called t2 @ u" "failing t2 x"
        by (auto simp: emits_run_def dest!: spec[of _ s1])
      with t1 have "trace s2 = trace s @ (t1 @ t2)" "es = map called (t1 @ t2) @ u" "failing (t1 @ t2) x"
        by (simp_all add: called_clean failing_append)
      with pk Some show ?thesis by auto
    next
      case None
      with ps ks obtain t2 where "trace s2 = trace s1 @ t2" "clean t2" "es1 = t2 @ es2"
        by (auto simp: emits_run_def dest!: spec[of _ s1])
      with t1 have "trace s2 = trace s @ (t1 @ t2)" "clean (t1 @ t2)" "es = (t1 @ t2) @ es2"
        by (simp_all add: clean_append)
      with pk None show ?thesis by auto
    qed
  qed
qed

lemma notebook_emits: "emits_run full_events [] (notebook lib)"
  unfolding notebook_def full_events_def line_defs
  by (rule emits_run_Cons emits_run_Nil emits_rules)+

lemma binds_ret: "binds N N (ret v)"
  by (simp add: binds_def ret_def)

lemma binds_call: "binds N N (call en f)"
  by (auto simp: binds_def call_def known_def list_all_iff less_Suc_eq split: prod.splits sum.splits)

lemma binds_mutate: "binds N N (mutate en a f)"
  by (auto simp: binds_def mutate_def known_def list_all_iff split: prod.splits sum.splits)

lemma binds_enter: "binds N N (enter f)"
  by (simp add: binds_def enter_def known_def)

lemma binds_bind:
  fixes m :: "('a, 'o, 'e, 'g) prog"
  assumes m: "binds N N m" and k: "\<And>v. binds N M (k v)"
  shows "binds N M (pbind m k)"
  unfolding binds_def
proof (intro allI impI)
  fix s :: "('o, 'e, 'g) state"
  assume kn: "known N s"
  obtain r s1 where ms: "m s = (r, s1)" by (cases "m s")
  show "case pbind m k s of (Inr v, s') \<Rightarrow> known M s'
        | (Inl x, s') \<Rightarrow> (\<exists>e. x = Raised e) \<and> known N s'"
  proof (cases r)
    case (Inl x)
    with m kn ms show ?thesis by (auto simp: binds_def pbind_def dest!: spec[of _ s])
  next
    case (Inr v)
    with m kn ms have "known N s1" by (auto simp: binds_def dest!: spec[of _ s])
    with k[of v] have "case k v s1 of (Inr v, s') \<Rightarrow> known M s'
        | (Inl x, s') \<Rightarrow> (\<exists>e. x = Raised e) \<and> known N s'"
      by (simp add: binds_def)
    with ms Inr show ?thesis by (simp add: pbind_def)
  qed
qed

lemma binds_load:
  fixes k :: "addr \<times> 'o \<Rightarrow> ('a, 'o, 'e, 'g) prog"
  assumes n: "n \<in> set N" and k: "\<And>v. binds N M (k v)"
  shows "binds N M (pbind (load n) k)"
  unfolding binds_def
proof (intro allI impI)
  fix s :: "('o, 'e, 'g) state"
  assume kn: "known N s"
  from kn n obtain a where a: "a < nxt s" "env s n = Some a"
    by (auto simp: known_def list_all_iff)
  with kn obtain v where "heap s a = Some v"
    by (auto simp: known_def)
  note a(2) this
  then have "pbind (load n) k s = k (a, v) s" by (simp add: pbind_def load_def)
  with k[of "(a, v)"] kn show "case pbind (load n) k s of (Inr v, s') \<Rightarrow> known M s'
        | (Inl x, s') \<Rightarrow> (\<exists>e. x = Raised e) \<and> known N s'"
    by (simp add: binds_def)
qed

lemma binds_call_assign: "binds N (n # N) (pbind (call en f) (assign n))"
  by (auto simp: binds_def pbind_def call_def assign_def known_def list_all_iff less_Suc_eq
      split: prod.splits sum.splits)

lemma binds_discard: "binds N N m \<Longrightarrow> binds N N (discard m)"
  unfolding discard_def by (rule binds_bind, assumption, rule binds_ret)

lemma binds_display: "binds N N (display lib r)"
  unfolding display_def by (rule binds_discard) (rule binds_call)

lemma binds_call_assign_then:
  fixes k :: "(unit, 'o, 'e, 'g) prog"
  assumes k: "binds (n # N) M k"
  shows "binds N M (pbind (call en f) (\<lambda>c. pbind (assign n c) (\<lambda>_. k)))"
  unfolding binds_def
proof (intro allI impI)
  fix s :: "('o, 'e, 'g) state"
  assume kn: "known N s"
  obtain r g where fg: "f (libstate s) = (r, g)" by (cases "f (libstate s)")
  show "case pbind (call en f) (\<lambda>c. pbind (assign n c) (\<lambda>_. k)) s of
          (Inr v, s') \<Rightarrow> known M s'
        | (Inl x, s') \<Rightarrow> (\<exists>e. x = Raised e) \<and> known N s'"
  proof (cases r)
    case (Inl e)
    with fg kn show ?thesis
      by (auto simp: pbind_def call_def known_def list_all_iff)
  next
    case (Inr v)
    define s1 where "s1 = s\<lparr>heap := (heap s)(nxt s \<mapsto> v), nxt := Suc (nxt s), libstate := g,
              trace := trace s @ [Returned en], env := (env s)(n \<mapsto> nxt s)\<rparr>"
    from kn have k1: "known (n # N) s1"
      by (auto simp: known_def list_all_iff s1_def less_Suc_eq)
    from fg Inr have e: "pbind (call en f) (\<lambda>c. pbind (assign n c) (\<lambda>_. k)) s = k s1"
      by (simp add: pbind_def call_def assign_def s1_def)
    from k k1 have "case k s1 of (Inr v, s') \<Rightarrow> known M s'
        | (Inl x, s') \<Rightarrow> (\<exists>e. x = Raised e) \<and> known (n # N) s'"
      by (simp add: binds_def)
    then show ?thesis unfolding e
      by (auto simp: known_def split: prod.splits sum.splits)
  qed
qed

lemma binds_spearman_assign:
  fixes lib :: "('o, 'e, 'g) library"
  assumes xr: "''xr'' \<in> set N"
  shows "binds N (n # N) (pbind (spearman_correlation lib x y d) (assign n))"
  unfolding binds_def
proof (intro allI impI)
  fix s :: "('o, 'e, 'g) state"
  assume kn: "known N s"
  from kn xr obtain a where a: "a < nxt s" "env s ''xr'' = Some a"
    by (auto simp: known_def list_all_iff)
  with kn obtain v where v: "heap s a = Some v"
    by (auto simp: known_def)
  from kn a(2) v show "case pbind (spearman_correlation lib x y d) (assign n) s of
          (Inr v, s') \<Rightarrow> known (n # N) s'
        | (Inl x, s') \<Rightarrow> (\<exists>e. x = Raised e) \<and> known N s'"
    by (auto simp: spearman_correlation_def enter_def load_def pbind_def call_def assign_def
        known_def list_all_iff less_Suc_eq split: prod.splits sum.splits)
qed

lemmas binds_rules = binds_call_assign_then binds_call_assign binds_spearman_assign binds_load
  binds_bind binds_ret binds_call binds_mutate binds_enter binds_discard binds_display

lemma binds_run_Nil: "binds_run N []"
  by (simp add: binds_run_def)

lemma binds_run_Cons:
  fixes p :: "(unit, 'o, 'e, 'g) prog"
  assumes p: "binds N M p" and ps: "binds_run M ps"
  shows "binds_run N ((l, p) # ps)"
  unfolding binds_run_def
proof (intro allI impI)
  fix s :: "('o, 'e, 'g) state"
  assume kn: "known N s"
  obtain r s1 where ms: "p s = (r, s1)" by (cases "p s")
  show "case run ((l, p) # ps) s of (None, s') \<Rightarrow> True | (Some x, s') \<Rightarrow> \<exists>e. x = Raised e"
  proof (cases r)
    case (Inl x)
    with p kn ms show ?thesis by (auto simp: binds_def dest!: spec[of _ s])
  next
    case (Inr v)
    with p kn ms have "known M s1" by (auto simp: binds_def dest!: spec[of _ s])
    with ps have "case run ps s1 of (None, s') \<Rightarrow> True | (Some x, s') \<Rightarrow> \<exists>e. x = Raised e"
      by (simp add: binds_run_def)
    with ms Inr show ?thesis by simp
  qed
qed

lemma notebook_binds: "binds_run [] (notebook lib)"
  unfolding notebook_def line_defs
  by (rule binds_run_Cons binds_run_Nil binds_rules | simp)+

lemma expr_ret: "expr (ret v)"
  by (simp add: expr_def ret_def)

lemma expr_load: "expr (load n)"
  by (simp add: expr_def load_def split: option.splits)

lemma expr_enter: "expr (enter f)"
  by (simp add: expr_def enter_def)

lemma expr_call: "expr (call en f)"
  by (simp add: expr_def call_def split: prod.splits sum.splits)

lemma expr_bind:
  fixes m :: "('a, 'o, 'e, 'g) prog"
  assumes m: "expr m" and k: "\<And>v. expr (k v)"
  shows "expr (pbind m k)"
  unfolding expr_def
proof
  fix s :: "('o, 'e, 'g) state"
  obtain r s1 where ms: "m s = (r, s1)" by (cases "m s")
  with m have 1: "env s1 = env s" "nxt s \<le> nxt s1" "\<forall>a<nxt s. heap s1 a = heap s a"
    by (auto simp: expr_def dest!: spec[of _ s])
  show "case pbind m k s of (r, s') \<Rightarrow>
        env s' = env s \<and> nxt s \<le> nxt s' \<and> (\<forall>a<nxt s. heap s' a = heap s a)"
  proof (cases r)
    case (Inl x)
    with ms 1 show ?thesis by (simp add: pbind_def)
  next
    case (Inr v)
    obtain r2 s2 where ks: "k v s1 = (r2, s2)" by (cases "k v s1")
    with k[of v] have 2: "env s2 = env s1" "nxt s1 \<le> nxt s2" "\<forall>a<nxt s1. heap s2 a = heap s1 a"
      by (auto simp: expr_def dest!: spec[of _ s1])
    from 1 2 have "env s2 = env s" "nxt s \<le> nxt s2" "\<forall>a<nxt s. heap s2 a = heap s a"
      by auto
    with ms Inr ks show ?thesis by (simp add: pbind_def)
  qed
qed

lemma expr_discard: "expr m \<Longrightarrow> expr (discard m)"
  unfolding discard_def by (rule expr_bind, assumption, rule expr_ret)

lemma expr_display: "expr (display lib r)"
  unfolding display_def by (rule expr_discard) (rule expr_call)

lemma expr_spearman_correlation: "expr (spearman_correlation lib x y d)"
  unfolding spearman_correlation_def
  by (rule expr_bind, rule expr_enter, rule expr_bind, rule expr_load, rule expr_call)

lemma frames_expr:
  fixes p :: "('a, 'o, 'e, 'g) prog"
  assumes "expr p"
  shows "frames p"
  unfolding frames_def
proof
  fix s :: "('o, 'e, 'g) state"
  from assms have "case p s of (r, s') \<Rightarrow>
      env s' = env s \<and> nxt s \<le> nxt s' \<and> (\<forall>a<nxt s. heap s' a = heap s a)"
    unfolding expr_def by (rule spec)
  then show "case p s of (r, s') \<Rightarrow>
        nxt s \<le> nxt s' \<and> (\<forall>a<nxt s. heap s' a = heap s a)
        \<and> (\<forall>n b. env s' n = Some b \<longrightarrow> env s n = Some b \<or> nxt s \<le> b)
        \<and> (case r of Inl x \<Rightarrow> env s' = env s | Inr v \<Rightarrow> True)"
    by (auto split: prod.splits sum.splits)
qed

lemma frames_call_assign: "frames (pbind (call en f) (assign n))"
  by (simp add: frames_def pbind_def call_def assign_def split: prod.splits sum.splits)

lemma frames_call_assign_ret:
  "frames (pbind (call en f) (\<lambda>c. pbind (assign n c) ret))"
  by (simp add: frames_def pbind_def call_def assign_def ret_def split: prod.splits sum.splits)

lemma frames_spearman_assign: "frames (pbind (spearman_correlation lib x y d) (assign n))"
  by (simp add: frames_def spearman_correlation_def enter_def load_def pbind_def call_def assign_def
      split: option.splits prod.splits sum.splits)

lemma frames_bind:
  fixes m :: "('a, 'o, 'e, 'g) prog"
  assumes m: "expr m" and k: "\<And>v. frames (k v)"
  shows "frames (pbind m k)"
  unfolding frames_def
proof
  fix s :: "('o, 'e, 'g) state"
  obtain r s1 where ms: "m s = (r, s1)" by (cases "m s")
  with m have 1: "env s1 = env s" "nxt s \<le> nxt s1" "\<forall>a<nxt s. heap s1 a = heap s a"
    by (auto simp: expr_def dest!: spec[of _ s])
  show "case pbind m k s of (r, s') \<Rightarrow>
        nxt s \<le> nxt s' \<and> (\<forall>a<nxt s. heap s' a = heap s a)
        \<and> (\<forall>n b. env s' n = Some b \<longrightarrow> env s n = Some b \<or> nxt s \<le> b)
        \<and> (case r of Inl x \<Rightarrow> env s' = env s | Inr v \<Rightarrow> True)"
  proof (cases r)
    case (Inl x)
    with ms 1 show ?thesis by (simp add: pbind_def)
  next
    case (Inr v)
    obtain r2 s2 where ks: "k v s1 = (r2, s2)" by (cases "k v s1")
    from k[of v] have "case k v s1 of (r, s') \<Rightarrow>
        nxt s1 \<le> nxt s' \<and> (\<forall>a<nxt s1. heap s' a = heap s1 a)
        \<and> (\<forall>n b. env s' n = Some b \<longrightarrow> env s1 n = Some b \<or> nxt s1 \<le> b)
        \<and> (case r of Inl x \<Rightarrow> env s' = env s1 | Inr v \<Rightarrow> True)"
      unfolding frames_def by (rule spec)
    with ks have 2: "nxt s1 \<le> nxt s2" "\<forall>a<nxt s1. heap s2 a = heap s1 a"
      "\<forall>n b. env s2 n = Some b \<longrightarrow> env s1 n = Some b \<or> nxt s1 \<le> b"
      "case r2 of Inl x \<Rightarrow> env s2 = env s1 | Inr v \<Rightarrow> True"
      by simp_all
    from 1 2(1,2) have a: "nxt s \<le> nxt s2" "\<forall>a<nxt s. heap s2 a = heap s a"
      by auto
    from 1 2(3) have b: "\<forall>n b. env s2 n = Some b \<longrightarrow> env s n = Some b \<or> nxt s \<le> b"
      by (metis le_trans)
    from 1 2(4) have c: "case r2 of Inl x \<Rightarrow> env s2 = env s | Inr v \<Rightarrow> True"
      by (simp split: sum.splits)
    from a b c ms Inr ks show ?thesis by (simp add: pbind_def)
  qed
qed

lemmas frames_rules = frames_call_assign_ret frames_call_assign frames_spearman_assign frames_bind frames_expr
  expr_bind expr_ret expr_load expr_enter expr_call expr_discard expr_display
  expr_spearman_correlation

lemma notebook_frames:
  "list_all (\<lambda>(l, p). l \<noteq> 200 \<and> l \<noteq> 77 \<longrightarrow> frames p) (notebook lib)"
  unfolding notebook_def line_defs
  by (simp, intro conjI) (rule frames_rules)+

lemma allocs_frames:
  fixes p :: "('a, 'o, 'e, 'g) prog"
  assumes "frames p"
  shows "allocs p"
  unfolding allocs_def
proof
  fix s :: "('o, 'e, 'g) state"
  from assms have "case p s of (r, s') \<Rightarrow>
        nxt s \<le> nxt s' \<and> (\<forall>a<nxt s. heap s' a = heap s a)
        \<and> (\<forall>n b. env s' n = Some b \<longrightarrow> env s n = Some b \<or> nxt s \<le> b)
        \<and> (case r of Inl x \<Rightarrow> env s' = env s | Inr v \<Rightarrow> True)"
    unfolding frames_def by (rule spec)
  then show "case p s of (r, s') \<Rightarrow>
        nxt s \<le> nxt s' \<and> (\<forall>a<nxt s. heap s' a = heap s a)
        \<and> (\<forall>n b. env s' n = Some b \<longrightarrow> env s n = Some b \<or> nxt s \<le> b)"
    by (auto split: prod.splits)
qed

text \<open>
  The import of two names at line 77 binds the first name before it takes the second from
  the module: when the second import raises, \<open>Client\<close> is bound already.
\<close>

lemma line_77_frame:
  assumes "line_77 lib s = (r, s')"
  shows "nxt s \<le> nxt s' \<and> (\<forall>a<nxt s. heap s' a = heap s a)
         \<and> (\<forall>n b. env s' n = Some b \<longrightarrow> env s n = Some b \<or> nxt s \<le> b)
         \<and> (case r of Inl x \<Rightarrow> \<forall>n. n \<noteq> ''Client'' \<longrightarrow> env s' n = env s n | Inr v \<Rightarrow> True)"
  using assms
  by (auto simp: line_77_def from_import_def pbind_def call_def assign_def ret_def
      split: prod.splits sum.splits if_splits)

lemma line_200_frame:
  assumes "line_200 lib s = (r, s')"
  shows "env s' = env s \<and> nxt s \<le> nxt s'
         \<and> (\<forall>a<nxt s. env s ''y'' \<noteq> Some a \<longrightarrow> heap s' a = heap s a)
         \<and> (case r of Inl x \<Rightarrow> \<forall>a<nxt s. heap s' a = heap s a | Inr v \<Rightarrow> True)"
  using assms
  by (auto simp: line_200_def pbind_def load_def call_def mutate_def
      split: option.splits prod.splits sum.splits)

lemmas toy_defs = notebook_def init_def toy_def ok_def fails_def line_defs prog_defs
  rotate_right_def reduce_lane_def avg_def toy_gufunc state_before_def

lemma toy_before_200:
  "env (state_before 200 toy ''default'') ''x'' = Some 34"
  "env (state_before 200 toy ''default'') ''y'' = Some 36"
  "nxt (state_before 200 toy ''default'') = 37"
  "heap (state_before 200 toy ''default'') 34 = Some (Arr [0, 1, 2] [[1, 2, 4], [3, 1, 2]])"
  "heap (state_before 200 toy ''default'') 36 = Some (Arr [2, 0, 1] [[4, 1, 2], [2, 3, 1]])"
  by (simp_all add: toy_defs)

lemma toy_after_200:
  "fst (line_200 toy (state_before 200 toy ''default'')) = Inr ()"
  "heap (snd (line_200 toy (state_before 200 toy ''default''))) 34 = Some (Arr [0, 1, 2] [[1, 2, 4], [3, 1, 2]])"
  "heap (snd (line_200 toy (state_before 200 toy ''default''))) 36 = Some (Arr [0, 1, 2] [[4, 1, 2], [2, 3, 1]])"
  by (simp_all add: toy_defs)

lemma known_init: "known [] (init g)"
  by (simp add: known_def init_def)

lemma run_outcome:
  "case run (notebook lib) (init g) of
      (None, s') \<Rightarrow> trace s' = full_events
    | (Some x, s') \<Rightarrow>
        \<exists>e en. x = Raised e \<and> trace s' \<noteq> [] \<and> last (trace s') = Threw en e
               \<and> clean (butlast (trace s')) \<and> (\<exists>u. full_events = map called (trace s') @ u)"
proof -
  obtain r s' where rs: "run (notebook lib) (init g) = (r, s')"
    by (cases "run (notebook lib) (init g)")
  note notebook_emits[of lib, unfolded emits_run_def, THEN spec, of "init g"]
  with rs have e: "case r of
        None \<Rightarrow> trace s' = full_events
      | Some x \<Rightarrow> (\<exists>u. full_events = map called (trace s') @ u) \<and> failing (trace s') x"
    by (auto simp: init_def split: option.splits)
  note notebook_binds[of lib, unfolded binds_run_def, THEN spec, of "init g", THEN mp, OF known_init]
  with rs have b: "case r of None \<Rightarrow> True | Some x \<Rightarrow> \<exists>e. x = Raised e"
    by simp
  show ?thesis
  proof (cases r)
    case None
    with e rs show ?thesis by simp
  next
    case (Some x)
    with b obtain e' where x: "x = Raised e'" by auto
    with e Some have "(\<exists>u. full_events = map called (trace s') @ u)" "failing (trace s') (Raised e')"
      by simp_all
    with rs Some x show ?thesis by (auto simp: failing_def)
  qed
qed

lemma line_failure_keeps_state:
  "list_all (\<lambda>(l, p). \<forall>s x s'. p s = (Inl x, s') \<longrightarrow>
      (\<forall>a<nxt s. heap s' a = heap s a)
      \<and> (\<forall>n. l = 77 \<and> n = ''Client'' \<or> env s' n = env s n)) (notebook lib)"
  unfolding list_all_iff
proof (intro ballI, clarify)
  fix l p s x s'
  assume m: "(l, p) \<in> set (notebook lib)" and p: "p s = (Inl x, s')"
  consider "l = 200" | "l = 77" | "l \<noteq> 200" "l \<noteq> 77" by blast
  then show "(\<forall>a<nxt s. heap s' a = heap s a)
      \<and> (\<forall>n. l = 77 \<and> n = ''Client'' \<or> env s' n = env s n)"
  proof cases
    case 1
    with m have "p = line_200 lib" by (auto simp: notebook_def)
    with p have "line_200 lib s = (Inl x, s')" by simp
    from line_200_frame[OF this] show ?thesis by simp
  next
    case 2
    with m have "p = line_77 lib" by (auto simp: notebook_def)
    with p have "line_77 lib s = (Inl x, s')" by simp
    from line_77_frame[OF this] 2 show ?thesis by auto
  next
    case 3
    with m notebook_frames[of lib] have "frames p" by (auto simp: list_all_iff)
    then have "case p s of (r, s') \<Rightarrow>
        nxt s \<le> nxt s' \<and> (\<forall>a<nxt s. heap s' a = heap s a)
        \<and> (\<forall>n b. env s' n = Some b \<longrightarrow> env s n = Some b \<or> nxt s \<le> b)
        \<and> (case r of Inl x \<Rightarrow> env s' = env s | Inr v \<Rightarrow> True)"
      unfolding frames_def by (rule spec)
    with p show ?thesis by simp
  qed
qed

lemma toy_run: "fst (run (notebook toy) (init ''default'')) = None"
  by (simp add: toy_defs)

lemma toy_out_of_memory_run:
  "fst (run (notebook toy_out_of_memory) (init ''default'')) = Some (Raised ''MemoryError'')"
  by (simp add: toy_defs toy_out_of_memory_def)

lemma toy_no_bottleneck_run:
  "fst (run (notebook toy_no_bottleneck) (init ''default'')) = Some (Raised ''ModuleNotFoundError'')"
  "env (snd (run (notebook toy_no_bottleneck) (init ''default''))) ''bottleneck'' = None"
  by (simp_all add: toy_defs toy_no_bottleneck_def)

lemma entry_of_called: "entry_of (called ev) = entry_of ev"
  by (cases ev) simp_all

lemma all_before_append: "all_before P Q (t @ u) \<Longrightarrow> all_before P Q t"
  by (induction t) simp_all

lemma all_before_map:
  assumes "\<And>e. P (f e) = P e" and "\<And>e. Q (f e) = Q e"
  shows "all_before P Q (map f t) = all_before P Q t"
  by (induction t) (simp_all add: assms list_all_iff)

lemma list_all_map_called:
  assumes "\<And>e. P (called e) = P e"
  shows "list_all P (map called t) = list_all P t"
  by (simp add: list_all_iff assms)

lemma trace_prefix:
  "\<exists>u. full_events = map called (trace (snd (run (notebook lib) (init g)))) @ u"
proof -
  obtain r s' where rs: "run (notebook lib) (init g) = (r, s')"
    by (cases "run (notebook lib) (init g)")
  from run_outcome[of lib g] rs have
    "case r of None \<Rightarrow> trace s' = full_events
     | Some x \<Rightarrow> \<exists>u. full_events = map called (trace s') @ u"
    by (auto split: option.splits)
  then have "\<exists>u. full_events = map called (trace s') @ u"
  proof (cases r)
    case None
    assume "case r of None \<Rightarrow> trace s' = full_events
       | Some x \<Rightarrow> \<exists>u. full_events = map called (trace s') @ u"
    with None have t: "trace s' = full_events" by simp
    then have "map called (trace s') = trace s'" by (simp add: full_events_def)
    with t have "full_events = map called (trace s') @ []" by simp
    then show ?thesis ..
  next
    case (Some x)
    assume "case r of None \<Rightarrow> trace s' = full_events
       | Some x \<Rightarrow> \<exists>u. full_events = map called (trace s') @ u"
    with Some show ?thesis by simp
  qed
  with rs show ?thesis by simp
qed

lemma order_in_trace:
  assumes P: "\<And>e. P (called e) = P e" and Q: "\<And>e. Q (called e) = Q e"
    and full: "all_before P Q (full_events :: 'e event list)"
  shows "all_before P Q (trace (snd (run (notebook lib) (init g)) :: ('o, 'e, 'g) state))"
proof -
  from trace_prefix[of lib g] obtain u where
    "full_events = map called (trace (snd (run (notebook lib) (init g)))) @ u" ..
  with full have "all_before P Q (map called (trace (snd (run (notebook lib) (init g)))))"
    by (metis all_before_append)
  then show ?thesis by (simp add: all_before_map[of P called Q, OF P Q])
qed

lemmas event_kinds = is_open_def is_aggregate_def is_masking_def is_transformation_def
  is_visualize_def is_persist_def is_library_def

lemma toy_full_trace: "trace (snd (run (notebook toy) (init ''default''))) = full_events"
  using run_outcome[of toy "''default''"] toy_run by (simp add: case_prod_unfold)

lemma own_or_library_called:
  "(is_library (called ev) \<or> called ev = Entered f) = (is_library ev \<or> ev = Entered f)"
  by (cases ev) (simp_all add: is_library_def)

lemma toy_corr:
  "env (state_before 206 toy ''default'') ''corr'' = Some 40"
  "heap (state_before 206 toy ''default'') 40 = Some (Res [Fin (- 1 / 2), Fin (- 1 / 2)])"
  by (simp_all add: toy_defs)

lemma follows_append: "follows P Q (t @ u) \<Longrightarrow> follows P Q t"
  by (induction t) (auto simp: follows_def split: if_splits)

lemma follows_map:
  assumes "\<And>e. P (f e) = P e" and "\<And>e. Q (f e) = Q e"
  shows "follows P Q (map f t) = follows P Q t"
  by (induction t) (simp_all add: follows_def assms)

lemma follows_in_trace:
  assumes P: "\<And>e. P (called e) = P e" and Q: "\<And>e. Q (called e) = Q e"
    and full: "follows P Q (full_events :: 'e event list)"
  shows "follows P Q (trace (snd (run (notebook lib) (init g)) :: ('o, 'e, 'g) state))"
proof -
  from trace_prefix[of lib g] obtain u where
    "full_events = map called (trace (snd (run (notebook lib) (init g)))) @ u" ..
  with full have "follows P Q (map called (trace (snd (run (notebook lib) (init g)))))"
    by (metis follows_append)
  then show ?thesis by (simp add: follows_map[of P called Q, OF P Q])
qed

lemma full_trace_if_returns:
  "fst (run (notebook lib) (init g)) = None
   \<Longrightarrow> trace (snd (run (notebook lib) (init g))) = full_events"
  using run_outcome[of lib g] by (auto split: prod.splits option.splits)

subsection \<open>The record of the library\<close>

lemma logs_ret: "logs (ret v)"
  by (simp add: logs_def ret_def)

lemma logs_load: "logs (load n)"
  by (simp add: logs_def load_def split: option.splits)

lemma logs_assign: "logs (assign n r)"
  by (simp add: logs_def assign_def)

lemma logs_enter: "logs (enter f)"
  by (simp add: logs_def enter_def)

lemma logs_call: "logs (call en (logged f))"
  by (simp add: logs_def call_def logged_def split: prod.splits sum.splits)

lemma logs_mutate: "logs (mutate en a (logged f))"
  by (simp add: logs_def mutate_def logged_def split: prod.splits sum.splits)

lemma logs_bind:
  fixes m :: "('a, 'o, 'e, 'g \<times> 'e list) prog"
  assumes m: "logs m" and k: "\<And>v. logs (k v)"
  shows "logs (pbind m k)"
  unfolding logs_def
proof
  fix s :: "('o, 'e, 'g \<times> 'e list) state"
  obtain r s1 where ms: "m s = (r, s1)" by (cases "m s")
  from m have 1: "case m s of
        (Inr v, s') \<Rightarrow> snd (libstate s') = snd (libstate s)
      | (Inl (NameError n), s') \<Rightarrow> snd (libstate s') = snd (libstate s)
      | (Inl (Raised e), s') \<Rightarrow> snd (libstate s') = snd (libstate s) @ [e]"
    unfolding logs_def by (rule spec)
  show "case pbind m k s of
        (Inr v, s') \<Rightarrow> snd (libstate s') = snd (libstate s)
      | (Inl (NameError n), s') \<Rightarrow> snd (libstate s') = snd (libstate s)
      | (Inl (Raised e), s') \<Rightarrow> snd (libstate s') = snd (libstate s) @ [e]"
  proof (cases r)
    case (Inl x)
    with ms 1 show ?thesis by (simp add: pbind_def)
  next
    case (Inr v)
    with ms 1 have e: "snd (libstate s1) = snd (libstate s)" by simp
    from k[of v] have "case k v s1 of
        (Inr v, s') \<Rightarrow> snd (libstate s') = snd (libstate s1)
      | (Inl (NameError n), s') \<Rightarrow> snd (libstate s') = snd (libstate s1)
      | (Inl (Raised e), s') \<Rightarrow> snd (libstate s') = snd (libstate s1) @ [e]"
      unfolding logs_def by (rule spec)
    with ms Inr e show ?thesis
      by (auto simp: pbind_def split: prod.splits sum.splits exn.splits)
  qed
qed

lemma logs_discard: "logs m \<Longrightarrow> logs (discard m)"
  unfolding discard_def by (rule logs_bind, assumption, rule logs_ret)

lemmas monitored_sel =
  monitored_def[THEN arg_cong[of _ _ lib_magic], simplified]
  monitored_def[THEN arg_cong[of _ _ lib_import], simplified]
  monitored_def[THEN arg_cong[of _ _ lib_import_from], simplified]
  monitored_def[THEN arg_cong[of _ _ lib_filterwarnings], simplified]
  monitored_def[THEN arg_cong[of _ _ lib_Client], simplified]
  monitored_def[THEN arg_cong[of _ _ lib_open_dataset], simplified]
  monitored_def[THEN arg_cong[of _ _ lib_getitem], simplified]
  monitored_def[THEN arg_cong[of _ _ lib_data], simplified]
  monitored_def[THEN arg_cong[of _ _ lib_resample], simplified]
  monitored_def[THEN arg_cong[of _ _ lib_max], simplified]
  monitored_def[THEN arg_cong[of _ _ lib_min], simplified]
  monitored_def[THEN arg_cong[of _ _ lib_sub], simplified]
  monitored_def[THEN arg_cong[of _ _ lib_mean], simplified]
  monitored_def[THEN arg_cong[of _ _ lib_visualize], simplified]
  monitored_def[THEN arg_cong[of _ _ lib_persist], simplified]
  monitored_def[THEN arg_cong[of _ _ lib_progress], simplified]
  monitored_def[THEN arg_cong[of _ _ lib_repr], simplified]
  monitored_def[THEN arg_cong[of _ _ lib_roll], simplified]
  monitored_def[THEN arg_cong[of _ _ lib_chunk], simplified]
  monitored_def[THEN arg_cong[of _ _ lib_setitem], simplified]
  monitored_def[THEN arg_cong[of _ _ lib_apply_ufunc], simplified]
  monitored_def[THEN arg_cong[of _ _ lib_lt], simplified]
  monitored_def[THEN arg_cong[of _ _ lib_where], simplified]
  monitored_def[THEN arg_cong[of _ _ lib_plot], simplified]
  monitored_def[THEN arg_cong[of _ _ lib_config_set], simplified]
  monitored_def[THEN arg_cong[of _ _ lib_numerics], simplified]

lemmas logs_rules = logs_bind logs_ret logs_load logs_assign logs_enter logs_call logs_mutate
  logs_discard

lemma logs_run_Nil: "logs_run []"
  by (simp add: logs_run_def)

lemma logs_run_Cons:
  fixes p :: "(unit, 'o, 'e, 'g \<times> 'e list) prog"
  assumes p: "logs p" and ps: "logs_run ps"
  shows "logs_run ((l, p) # ps)"
  unfolding logs_run_def
proof
  fix s :: "('o, 'e, 'g \<times> 'e list) state"
  obtain r s1 where ms: "p s = (r, s1)" by (cases "p s")
  from p have 1: "case p s of
        (Inr v, s') \<Rightarrow> snd (libstate s') = snd (libstate s)
      | (Inl (NameError n), s') \<Rightarrow> snd (libstate s') = snd (libstate s)
      | (Inl (Raised e), s') \<Rightarrow> snd (libstate s') = snd (libstate s) @ [e]"
    unfolding logs_def by (rule spec)
  show "case run ((l, p) # ps) s of
        (None, s') \<Rightarrow> snd (libstate s') = snd (libstate s)
      | (Some (NameError n), s') \<Rightarrow> snd (libstate s') = snd (libstate s)
      | (Some (Raised e), s') \<Rightarrow> snd (libstate s') = snd (libstate s) @ [e]"
  proof (cases r)
    case (Inl x)
    with ms 1 show ?thesis by simp
  next
    case (Inr v)
    with ms 1 have e: "snd (libstate s1) = snd (libstate s)" by simp
    from ps have "case run ps s1 of
        (None, s') \<Rightarrow> snd (libstate s') = snd (libstate s1)
      | (Some (NameError n), s') \<Rightarrow> snd (libstate s') = snd (libstate s1)
      | (Some (Raised e), s') \<Rightarrow> snd (libstate s') = snd (libstate s1) @ [e]"
      unfolding logs_run_def by (rule spec)
    with ms Inr e show ?thesis
      by (auto split: prod.splits option.splits exn.splits)
  qed
qed

lemma notebook_logs: "logs_run (notebook (monitored lib))"
  unfolding notebook_def line_defs line_defs spearman_correlation_def display_def monitored_sel
  by (rule logs_run_Cons logs_run_Nil logs_rules)+

lemma library_record:
  "case run (notebook (monitored lib)) (init (g, [])) of
      (None, s') \<Rightarrow> snd (libstate s') = []
    | (Some x, s') \<Rightarrow> \<exists>e. x = Raised e \<and> snd (libstate s') = [e]"
proof -
  obtain r s' where rs: "run (notebook (monitored lib)) (init (g, [])) = (r, s')"
    by (cases "run (notebook (monitored lib)) (init (g, []))")
  note notebook_logs[of lib, unfolded logs_run_def, THEN spec, of "init (g, [])"]
  with rs have l: "case r of
        None \<Rightarrow> snd (libstate s') = []
      | Some (NameError n) \<Rightarrow> snd (libstate s') = []
      | Some (Raised e) \<Rightarrow> snd (libstate s') = [e]"
    by (auto simp: init_def split: option.splits exn.splits)
  from run_outcome[of "monitored lib" "(g, [])"] rs
  have b: "case r of None \<Rightarrow> True | Some x \<Rightarrow> \<exists>e. x = Raised e"
    by (auto split: option.splits)
  from l b rs show ?thesis by (auto split: option.splits)
qed

lemma same_ret: "same_run (ret v) (ret v)"
  by (simp add: same_run_def ret_def)

lemma same_load: "same_run (load n) (load n)"
  by (simp add: same_run_def same_state_def load_def split: option.splits)

lemma same_assign: "same_run (assign n r) (assign n r)"
  by (simp add: same_run_def same_state_def assign_def)

lemma same_enter: "same_run (enter f) (enter f)"
  by (simp add: same_run_def same_state_def enter_def)

lemma same_call: "same_run (call en f) (call en (logged f))"
  by (auto simp: same_run_def same_state_def call_def logged_def split: prod.splits sum.splits)

lemma same_mutate: "same_run (mutate en a f) (mutate en a (logged f))"
  by (auto simp: same_run_def same_state_def mutate_def logged_def split: prod.splits sum.splits)

lemma same_bind:
  fixes m :: "('a, 'o, 'e, 'g) prog" and m' :: "('a, 'o, 'e, 'g \<times> 'e list) prog"
  assumes m: "same_run m m'" and k: "\<And>v. same_run (k v) (k' v)"
  shows "same_run (pbind m k) (pbind m' k')"
  unfolding same_run_def
proof (intro allI impI)
  fix s :: "('o, 'e, 'g) state" and t :: "('o, 'e, 'g \<times> 'e list) state"
  assume st: "same_state s t"
  obtain r s1 where ms: "m s = (r, s1)" by (cases "m s")
  obtain r' t1 where mt: "m' t = (r', t1)" by (cases "m' t")
  from m st ms mt have 1: "r' = r" "same_state s1 t1"
    by (auto simp: same_run_def dest!: spec[of _ s] spec[of _ t])
  show "fst (pbind m' k' t) = fst (pbind m k s) \<and> same_state (snd (pbind m k s)) (snd (pbind m' k' t))"
  proof (cases r)
    case (Inl x)
    with ms mt 1 show ?thesis by (simp add: pbind_def)
  next
    case (Inr v)
    from k[of v] 1(2) have "fst (k' v t1) = fst (k v s1) \<and> same_state (snd (k v s1)) (snd (k' v t1))"
      by (simp add: same_run_def)
    with ms mt 1 Inr show ?thesis by (simp add: pbind_def)
  qed
qed

lemma same_discard: "same_run m m' \<Longrightarrow> same_run (discard m) (discard m')"
  unfolding discard_def by (rule same_bind, assumption, rule same_ret)

lemmas same_rules = same_bind same_ret same_load same_assign same_enter same_call same_mutate
  same_discard

lemma same_runs_Nil: "same_runs [] []"
  by (simp add: same_runs_def)

lemma same_runs_Cons:
  fixes p :: "(unit, 'o, 'e, 'g) prog" and q :: "(unit, 'o, 'e, 'g \<times> 'e list) prog"
  assumes p: "same_run p q" and ps: "same_runs ps qs"
  shows "same_runs ((l, p) # ps) ((l, q) # qs)"
  unfolding same_runs_def
proof (intro allI impI)
  fix s :: "('o, 'e, 'g) state" and t :: "('o, 'e, 'g \<times> 'e list) state"
  assume st: "same_state s t"
  obtain r s1 where ms: "p s = (r, s1)" by (cases "p s")
  obtain r' t1 where mt: "q t = (r', t1)" by (cases "q t")
  from p st ms mt have 1: "r' = r" "same_state s1 t1"
    by (auto simp: same_run_def dest!: spec[of _ s] spec[of _ t])
  show "fst (run ((l, q) # qs) t) = fst (run ((l, p) # ps) s)
        \<and> same_state (snd (run ((l, p) # ps) s)) (snd (run ((l, q) # qs) t))"
  proof (cases r)
    case (Inl x)
    with ms mt 1 show ?thesis by simp
  next
    case (Inr v)
    from ps 1(2) have "fst (run qs t1) = fst (run ps s1) \<and> same_state (snd (run ps s1)) (snd (run qs t1))"
      by (simp add: same_runs_def)
    with ms mt 1 Inr show ?thesis by simp
  qed
qed

lemma notebook_same: "same_runs (notebook lib) (notebook (monitored lib))"
  unfolding notebook_def line_defs line_defs spearman_correlation_def display_def monitored_sel
  by (rule same_runs_Cons same_runs_Nil same_rules)+

lemma monitored_outcome:
  fixes lib :: "('o, 'e, 'g) library"
  shows "fst (run (notebook (monitored lib)) (init (g, []))) = fst (run (notebook lib) (init g))"
proof -
  have st: "same_state (init g :: ('o, 'e, 'g) state) (init (g, []))"
    by (simp add: same_state_def init_def)
  from notebook_same[of lib, unfolded same_runs_def, THEN spec, THEN spec, THEN mp, OF st]
  show ?thesis by simp
qed

section \<open>The claims\<close>

text \<open>
  C8. The three functions are symmetric in their two arguments: exchanging \<open>x\<close> and
  \<open>y\<close> gives the same result. This holds for all arrays, of whatever shapes and
  entries: where one order raises \<^verbatim>\<open>ValueError\<close> so does the other, and where a
  division by zero gives \<^verbatim>\<open>nan\<close> it does so in both orders.
\<close>

theorem gufuncs_symmetric:
  "covariance_gufunc x y = covariance_gufunc y x
   \<and> pearson_correlation_gufunc x y = pearson_correlation_gufunc y x
   \<and> spearman_correlation_gufunc u v = spearman_correlation_gufunc v u"
  by (simp add: spearman_correlation_gufunc_def covariance_commute[of x y]
      pearson_commute[of x y] pearson_commute[of "rankdata u"])

theorem gufuncs_symmetric_witness:
  "covariance_gufunc (asarray [[1, 2, 3], [0, 2, 0]]) (asarray [[3, 1, 2], [1, 4, 1]]) = Inr [Fin (- 1 / 3), Fin (4 / 3)]
   \<and> covariance_gufunc (asarray [[3, 1, 2], [1, 4, 1]]) (asarray [[1, 2, 3], [0, 2, 0]]) = Inr [Fin (- 1 / 3), Fin (4 / 3)]
   \<and> pearson_correlation_gufunc (asarray [[1, 2, 3]]) (asarray [[3, 1, 2]])
      = pearson_correlation_gufunc (asarray [[3, 1, 2]]) (asarray [[1, 2, 3]])
   \<and> spearman_correlation_gufunc [[0, 2, 5]] [[4, 0, 1]] = spearman_correlation_gufunc [[4, 0, 1]] [[0, 2, 5]]"
  using gufuncs_symmetric[of "asarray [[1, 2, 3], [0, 2, 0]]" "asarray [[3, 1, 2], [1, 4, 1]]" "[[0, 2, 5]]" "[[4, 0, 1]]"]
    gufuncs_symmetric[of "asarray [[1, 2, 3]]" "asarray [[3, 1, 2]]" "[[0, 2, 5]]" "[[4, 0, 1]]"]
  by (simp add: covariance_gufunc_def asarray_def
  elementwise2_def elementwise1_def broadcast_def mean_keepdims_def mean_last_def 
   lane_mean_def lane_sum_def np_subtract_def)

text \<open>
  C4. Whatever the arithmetic of the library, for two arrays of the same shape (\<open>m\<close>
  lanes of length \<open>n\<close>), \<^verbatim>\<open>covariance_gufunc\<close> returns, lane by lane, the mean of the
  products of the deviations of the two lanes from their means, and
  \<^verbatim>\<open>pearson_correlation_gufunc\<close> returns that covariance divided by the product of the
  two standard deviations, each as the library computes it on the entries converted to
  floats. Neither raises. The lanes need no nonzero standard deviation for this: where the
  product of the two is zero, the entry is what the library's division gives for a zero
  divisor. (\<open>lane_covariance\<close> is the mean of the products of \<open>deviations\<close>, and
  \<open>lane_std_fl\<close> is numpy's \<^verbatim>\<open>std\<close>, the population standard deviation.)
\<close>

theorem pearson_is_cov_over_stds:
  assumes "has_shape m n x" and "has_shape m n y"
  shows "covariance_gufunc_fl F x y
           = Inr (map2 (\<lambda>r s. lane_mean_fl F (map2 (fl_multiply F) (deviations F r) (deviations F s)))
                    (asfloat F x) (asfloat F y))
         \<and> pearson_correlation_gufunc_fl F x y
           = Inr (map2 (\<lambda>r s. fl_true_divide F (lane_covariance F r s)
                                  (fl_multiply F (lane_std_fl F r) (lane_std_fl F s)))
                    (asfloat F x) (asfloat F y))"
  using covariance_fl_general[OF has_shape_all2[OF assms], of F]
    pearson_fl_general[OF has_shape_all2[OF assms], of F]
  by (simp only: lane_covariance_eta lane_pearson_eta simp_thms)

theorem pearson_is_cov_over_stds_witness:
  "has_shape 2 5 [[Fin 1, Fin 1, Fin 1, Fin 1, Fin (- 4)], [Fin (2 ^ 512), Fin (- (2 ^ 512)), Fin 0, Fin 0, Fin 0]]
   \<and> has_shape 2 5 [[Fin 3, Fin (- 3), Fin 1, Fin 0, Fin (- 1)], [Fin (2 ^ 512), Fin (- (2 ^ 512)), Fin 0, Fin 0, Fin 0]]
   \<and> covariance_gufunc_fl float64_short
        [[Fin 1, Fin 1, Fin 1, Fin 1, Fin (- 4)], [Fin (2 ^ 512), Fin (- (2 ^ 512)), Fin 0, Fin 0, Fin 0]]
        [[Fin 3, Fin (- 3), Fin 1, Fin 0, Fin (- 1)], [Fin (2 ^ 512), Fin (- (2 ^ 512)), Fin 0, Fin 0, Fin 0]]
      = Inr [Fin 1, PInf]
   \<and> pearson_correlation_gufunc_fl float64_short
        [[Fin 1, Fin 1, Fin 1, Fin 1, Fin (- 4)], [Fin (2 ^ 512), Fin (- (2 ^ 512)), Fin 0, Fin 0, Fin 0]]
        [[Fin 3, Fin (- 3), Fin 1, Fin 0, Fin (- 1)], [Fin (2 ^ 512), Fin (- (2 ^ 512)), Fin 0, Fin 0, Fin 0]]
      = Inr [Fin (1 / 4), NaN]"
proof -
  define b :: real where "b = 2 ^ 512"
  note o = overflow_lane[OF b_def]
  have c: "asfloat float64_short [[Fin 1, Fin 1, Fin 1, Fin 1, Fin (- 4)], [Fin b, Fin (- b), Fin 0, Fin 0, Fin 0]]
        = [[Fin 1, Fin 1, Fin 1, Fin 1, Fin (- 4)], [Fin b, Fin (- b), Fin 0, Fin 0, Fin 0]]"
    "asfloat float64_short [[Fin 3, Fin (- 3), Fin 1, Fin 0, Fin (- 1)], [Fin b, Fin (- b), Fin 0, Fin 0, Fin 0]]
        = [[Fin 3, Fin (- 3), Fin 1, Fin 0, Fin (- 1)], [Fin b, Fin (- b), Fin 0, Fin 0, Fin 0]]"
    by (simp_all add: asfloat_def o(1,2)) (simp_all add: cast_small)
  have sx: "has_shape 2 5 [[Fin 1, Fin 1, Fin 1, Fin 1, Fin (- 4)], [Fin b, Fin (- b), Fin 0, Fin 0, Fin 0]]"
    and sy: "has_shape 2 5 [[Fin 3, Fin (- 3), Fin 1, Fin 0, Fin (- 1)], [Fin b, Fin (- b), Fin 0, Fin 0, Fin 0]]"
    by (simp_all add: has_shape_def)
  from pearson_is_cov_over_stds[OF sx sy, of float64_short] sx sy
  have "has_shape 2 5 [[Fin 1, Fin 1, Fin 1, Fin 1, Fin (- 4)], [Fin b, Fin (- b), Fin 0, Fin 0, Fin 0]]
   \<and> has_shape 2 5 [[Fin 3, Fin (- 3), Fin 1, Fin 0, Fin (- 1)], [Fin b, Fin (- b), Fin 0, Fin 0, Fin 0]]
   \<and> covariance_gufunc_fl float64_short
        [[Fin 1, Fin 1, Fin 1, Fin 1, Fin (- 4)], [Fin b, Fin (- b), Fin 0, Fin 0, Fin 0]]
        [[Fin 3, Fin (- 3), Fin 1, Fin 0, Fin (- 1)], [Fin b, Fin (- b), Fin 0, Fin 0, Fin 0]]
      = Inr [Fin 1, PInf]
   \<and> pearson_correlation_gufunc_fl float64_short
        [[Fin 1, Fin 1, Fin 1, Fin 1, Fin (- 4)], [Fin b, Fin (- b), Fin 0, Fin 0, Fin 0]]
        [[Fin 3, Fin (- 3), Fin 1, Fin 0, Fin (- 1)], [Fin b, Fin (- b), Fin 0, Fin 0, Fin 0]]
      = Inr [Fin (1 / 4), NaN]"
    unfolding c lane_covariance_eta lane_pearson_eta
    by (simp add: ordinary_lanes o)
  then show ?thesis unfolding b_def .
qed




text \<open>
  C7. In exact arithmetic, for two arrays of the same shape with no constant lane, every
  entry that \<^verbatim>\<open>pearson_correlation_gufunc\<close> returns, and every entry that
  \<^verbatim>\<open>spearman_correlation_gufunc\<close> returns, is a finite number in the closed interval
  from \<open>-1\<close> to \<open>1\<close>. Hence the mask \<^verbatim>\<open>corr.where(corr < 1)\<close> replaces exactly the
  entries equal to \<open>1\<close> (by \<^verbatim>\<open>nan\<close>) and keeps every other entry.
\<close>

theorem correlation_in_unit_interval:
  assumes "has_shape m n x" and "has_shape m n y" and "varies x" and "varies y"
  shows "(\<exists>c. pearson_correlation_gufunc (asarray x) (asarray y) = Inr c \<and> length c = m
              \<and> list_all in_unit c
              \<and> where_lt_1 c = map (\<lambda>v. if v = Fin 1 then NaN else v) c)
       \<and> (\<exists>c. spearman_correlation_gufunc x y = Inr c \<and> length c = m
              \<and> list_all in_unit c
              \<and> where_lt_1 c = map (\<lambda>v. if v = Fin 1 then NaN else v) c)"
proof -
  note sh = has_shape_all2[OF assms(1,2)]
  from assms(1,2) have len: "length x = m" "length y = m" by (simp_all add: has_shape_def)
  have nc: "\<not> constant_lane r" if "r \<in> set x \<or> r \<in> set y" for r
    using that assms(3,4) by (auto simp: varies_def list_all_iff)
  have ln: "length r = length s" if "r \<in> set x" "s \<in> set y" for r s
    using that assms(1,2) by (simp add: has_shape_lane)
  let ?p = "map2 pearson_lane x y"
  let ?s = "map2 (\<lambda>r s. pearson_lane (map (lane_rank r) r) (map (lane_rank s) s)) x y"
  have up: "list_all in_unit ?p"
    by (intro list_all_map2 pearson_lane_in_unit ln nc) simp_all
  have us: "list_all in_unit ?s"
    by (intro list_all_map2 pearson_lane_in_unit rank_not_constant nc) (simp_all add: ln)
  have "pearson_correlation_gufunc (asarray x) (asarray y) = Inr ?p \<and> length ?p = m
        \<and> list_all in_unit ?p \<and> where_lt_1 ?p = map (\<lambda>v. if v = Fin 1 then NaN else v) ?p"
    using pearson_finite[OF sh] up where_unit[OF up] len by simp
  moreover have "spearman_correlation_gufunc x y = Inr ?s \<and> length ?s = m
        \<and> list_all in_unit ?s \<and> where_lt_1 ?s = map (\<lambda>v. if v = Fin 1 then NaN else v) ?s"
    using spearman_finite[OF sh] us where_unit[OF us] len by simp
  ultimately show ?thesis by blast
qed

theorem correlation_in_unit_interval_witness:
  "has_shape 2 3 [[0, 2, 5], [1, 2, 3 :: real]] \<and> has_shape 2 3 [[4, 0, 1], [10, 20, 30 :: real]]
   \<and> varies [[0, 2, 5], [1, 2, 3]] \<and> varies [[4, 0, 1], [10, 20, 30]]
   \<and> spearman_correlation_gufunc [[0, 2, 5], [1, 2, 3]] [[4, 0, 1], [10, 20, 30]]
       = Inr [Fin (- 1 / 2), Fin 1]
   \<and> list_all in_unit [Fin (- 1 / 2), Fin 1]
   \<and> where_lt_1 [Fin (- 1 / 2), Fin 1] = [Fin (- 1 / 2), NaN]"
proof -
  have sx: "has_shape 2 3 [[0, 2, 5], [1, 2, 3 :: real]]"
    and sy: "has_shape 2 3 [[4, 0, 1], [10, 20, 30 :: real]]"
    by (simp_all add: has_shape_def)
  have vx: "varies [[0, 2, 5], [1, 2, 3]]" and vy: "varies [[4, 0, 1], [10, 20, 30]]"
    by (auto simp: varies_def constant_lane_def)
  from correlation_in_unit_interval[OF sx sy vx vy] sx sy vx vy show ?thesis
    by (auto simp: spearman_example)
qed

text \<open>
  C1. Whatever the arithmetic of the library, for two arrays of the same shape
  \<^verbatim>\<open>spearman_correlation_gufunc(x, y)\<close> is \<^verbatim>\<open>pearson_correlation_gufunc\<close> applied to
  \<^verbatim>\<open>rankdata(x)\<close> and \<^verbatim>\<open>rankdata(y)\<close>, which have the shape of \<open>x\<close> and \<open>y\<close>; lane
  by lane it is Pearson's coefficient, as the library computes it, of the two lanes of
  ranks. This is Spearman's rank correlation: the ranks of a lane without \<^verbatim>\<open>nan\<close> are
  the average ranks from 1, which add up to \<open>n (n + 1) / 2\<close> whatever the ties. The lanes
  may hold infinities and \<^verbatim>\<open>nan\<close>.
\<close>

theorem spearman_is_pearson_of_ranks:
  assumes "has_shape m n x" and "has_shape m n y"
  shows "spearman_correlation_gufunc_fl F x y
           = pearson_correlation_gufunc_fl F (rankdata_fl F x) (rankdata_fl F y)
       \<and> has_shape m n (rankdata_fl F x) \<and> has_shape m n (rankdata_fl F y)
       \<and> spearman_correlation_gufunc_fl F x y
           = Inr (map2 (\<lambda>r s. lane_pearson F (map (fl_cast F) (rank_lane F r))
                                               (map (fl_cast F) (rank_lane F s))) x y)
       \<and> list_all (\<lambda>r. nan_free (map (fl_cast F) r)
            \<longrightarrow> lane_sum (rank_lane F r) = Fin (real n * (real n + 1) / 2)) x
       \<and> list_all (\<lambda>r. nan_free (map (fl_cast F) r)
            \<longrightarrow> lane_sum (rank_lane F r) = Fin (real n * (real n + 1) / 2)) y"
proof -
  have s: "list_all (\<lambda>r. nan_free (map (fl_cast F) r)
            \<longrightarrow> lane_sum (rank_lane F r) = Fin (real n * (real n + 1) / 2)) z"
    if "has_shape m n z" for z
    unfolding list_all_iff
  proof (intro ballI impI)
    fix r assume "r \<in> set z" and nf: "nan_free (map (fl_cast F) r)"
    with that have "length r = n" by (simp add: has_shape_lane)
    with rank_lane_sum[OF nf] show "lane_sum (rank_lane F r) = Fin (real n * (real n + 1) / 2)"
      by simp
  qed
  from spearman_fl_general[OF has_shape_all2[OF assms], of F]
    rankdata_fl_shape[OF assms(1), of F] rankdata_fl_shape[OF assms(2), of F]
    s[OF assms(1)] s[OF assms(2)]
  show ?thesis by (simp add: spearman_correlation_gufunc_fl_def)
qed

theorem spearman_is_pearson_of_ranks_witness:
  "has_shape 1 7 [[Fin 10, Fin 20, Fin 30, Fin 40, Fin 50, Fin 60, Fin 70]]
   \<and> has_shape 1 7 [[Fin 40, Fin 30, Fin 20, Fin 10, Fin 70, Fin 60, Fin 50]]
   \<and> rankdata_fl float64_short [[Fin 10, Fin 20, Fin 30, Fin 40, Fin 50, Fin 60, Fin 70]]
       = [[Fin 1, Fin 2, Fin 3, Fin 4, Fin 5, Fin 6, Fin 7]]
   \<and> rankdata_fl float64_short [[Fin 40, Fin 30, Fin 20, Fin 10, Fin 70, Fin 60, Fin 50]]
       = [[Fin 4, Fin 3, Fin 2, Fin 1, Fin 7, Fin 6, Fin 5]]
   \<and> spearman_correlation_gufunc_fl float64_short
        [[Fin 10, Fin 20, Fin 30, Fin 40, Fin 50, Fin 60, Fin 70]]
        [[Fin 40, Fin 30, Fin 20, Fin 10, Fin 70, Fin 60, Fin 50]] = Inr [Fin (1 / 2)]
   \<and> has_shape 1 4 [[Fin 5, Fin 5, Fin 7, Fin 7]] \<and> has_shape 1 4 [[Fin 9, Fin 9, Fin 2, Fin 2]]
   \<and> nan_free (map (fl_cast float64_short) [Fin 5, Fin 5, Fin 7, Fin 7])
   \<and> rankdata_fl float64_short [[Fin 5, Fin 5, Fin 7, Fin 7]]
       = [[Fin (3 / 2), Fin (3 / 2), Fin (7 / 2), Fin (7 / 2)]]
   \<and> rankdata_fl float64_short [[Fin 9, Fin 9, Fin 2, Fin 2]]
       = [[Fin (7 / 2), Fin (7 / 2), Fin (3 / 2), Fin (3 / 2)]]
   \<and> lane_sum (rank_lane float64_short [Fin 5, Fin 5, Fin 7, Fin 7]) = Fin 10
   \<and> spearman_correlation_gufunc_fl float64_short
        [[Fin 5, Fin 5, Fin 7, Fin 7]] [[Fin 9, Fin 9, Fin 2, Fin 2]] = Inr [Fin (- 1)]
   \<and> rankdata_fl float64_short [[Fin (2 ^ 53 + 1), Fin (2 ^ 53), Fin 0]]
       = [[Fin (5 / 2), Fin (5 / 2), Fin 1]]
   \<and> rankdata_fl float64_short [[NInf, Fin 3, PInf, Fin 3]]
       = [[Fin 1, Fin (5 / 2), Fin 4, Fin (5 / 2)]]"
proof -
  have s7: "has_shape 1 7 [[Fin 10, Fin 20, Fin 30, Fin 40, Fin 50, Fin 60, Fin 70]]"
    "has_shape 1 7 [[Fin 40, Fin 30, Fin 20, Fin 10, Fin 70, Fin 60, Fin 50]]"
    and s4: "has_shape 1 4 [[Fin 5, Fin 5, Fin 7, Fin 7]]" "has_shape 1 4 [[Fin 9, Fin 9, Fin 2, Fin 2]]"
    by (simp_all add: has_shape_def)
  have nf: "nan_free (map (fl_cast float64_short) [Fin 5, Fin 5, Fin 7, Fin 7])"
    by (simp add: nan_free_def cast_small)
  note a = spearman_is_pearson_of_ranks[OF s7, of float64_short]
  note b = spearman_is_pearson_of_ranks[OF s4, of float64_short]
  from a[THEN conjunct2, THEN conjunct2, THEN conjunct2, THEN conjunct1]
  have 1: "spearman_correlation_gufunc_fl float64_short
        [[Fin 10, Fin 20, Fin 30, Fin 40, Fin 50, Fin 60, Fin 70]]
        [[Fin 40, Fin 30, Fin 20, Fin 10, Fin 70, Fin 60, Fin 50]] = Inr [Fin (1 / 2)]"
    by (simp add: rank_examples cast_small rank_pearson_examples)
  from b[THEN conjunct2, THEN conjunct2, THEN conjunct2, THEN conjunct1]
  have 2: "spearman_correlation_gufunc_fl float64_short
        [[Fin 5, Fin 5, Fin 7, Fin 7]] [[Fin 9, Fin 9, Fin 2, Fin 2]] = Inr [Fin (- 1)]"
    by (simp add: rank_examples cast_small rank_pearson_examples)
  from b[THEN conjunct2, THEN conjunct2, THEN conjunct2, THEN conjunct2, THEN conjunct1] nf
  have 3: "lane_sum (rank_lane float64_short [Fin 5, Fin 5, Fin 7, Fin 7]) = Fin 10"
    by simp
  have 4: "rankdata_fl float64_short [[Fin (2 ^ 53 + 1), Fin (2 ^ 53), Fin 0]]
       = [[Fin (5 / 2), Fin (5 / 2), Fin 1]]"
    by (simp only: rankdata_fl_def list.map rank_float_tie)
  from 1 2 3 4 s7 s4 nf show ?thesis
    by (simp add: rankdata_fl_def rank_examples)
qed

text \<open>
  C5. As stated the claim fails: the statement \<^verbatim>\<open>y['time'] = x['time']\<close> of line 200
  changes the object bound to \<open>y\<close> in place. In the run on the small library, \<open>y\<close> is the
  object at address 36 with the rolled time coordinate \<open>[2, 0, 1]\<close>; after the statement
  the same address holds the time coordinate \<open>[0, 1, 2]\<close>.
\<close>

theorem coordinate_assigned_in_place:
  "env (state_before 200 toy ''default'') ''y'' = Some 36
   \<and> heap (state_before 200 toy ''default'') 36 = Some (Arr [2, 0, 1] [[4, 1, 2], [2, 3, 1]])
   \<and> fst (line_200 toy (state_before 200 toy ''default'')) = Inr ()
   \<and> heap (snd (line_200 toy (state_before 200 toy ''default''))) 36
       = Some (Arr [0, 1, 2] [[4, 1, 2], [2, 3, 1]])
   \<and> \<not> unchanged_by (line_200 toy) (state_before 200 toy ''default'')"
proof -
  have "\<not> unchanged_by (line_200 toy) (state_before 200 toy ''default'')"
  proof
    assume "unchanged_by (line_200 toy) (state_before 200 toy ''default'')"
    then have "heap (snd (line_200 toy (state_before 200 toy ''default''))) 36
        = heap (state_before 200 toy ''default'') 36"
      by (simp add: unchanged_by_def toy_before_200(3))
    then show False by (simp add: toy_before_200 toy_after_200)
  qed
  then show ?thesis by (simp add: toy_before_200 toy_after_200)
qed

text \<open>
  C5, amended. For every library and every state: a statement of the notebook other than
  line 200 leaves every stored object as it is, stores its results at new addresses, and
  binds names only to new addresses; line 200 leaves every stored object as it is except
  the one bound to \<open>y\<close>.
\<close>

theorem handles_frame:
  assumes "(l, p) \<in> set (notebook lib)" and "p s = (r, s')" and "a < nxt s"
    and "l = 200 \<longrightarrow> env s ''y'' \<noteq> Some a"
  shows "heap s' a = heap s a \<and> nxt s \<le> nxt s'
         \<and> (\<forall>n b. env s' n = Some b \<longrightarrow> env s n = Some b \<or> nxt s \<le> b)"
proof -
  consider "l = 200" | "l = 77" | "l \<noteq> 200" "l \<noteq> 77" by blast
  then show ?thesis
  proof cases
    case 1
    with assms(1) have "p = line_200 lib" by (auto simp: notebook_def)
    with assms(2) have "line_200 lib s = (r, s')" by simp
    from line_200_frame[OF this] assms(3,4) 1 show ?thesis by simp
  next
    case 2
    with assms(1) have "p = line_77 lib" by (auto simp: notebook_def)
    with assms(2) have "line_77 lib s = (r, s')" by simp
    from line_77_frame[OF this] assms(3) show ?thesis by simp
  next
    case 3
    with assms(1) notebook_frames[of lib] have "frames p"
      by (auto simp: list_all_iff)
    then have "case p s of (r, s') \<Rightarrow>
          nxt s \<le> nxt s' \<and> (\<forall>a<nxt s. heap s' a = heap s a)
          \<and> (\<forall>n b. env s' n = Some b \<longrightarrow> env s n = Some b \<or> nxt s \<le> b)
          \<and> (case r of Inl x \<Rightarrow> env s' = env s | Inr v \<Rightarrow> True)"
      unfolding frames_def by (rule spec)
    with assms(2,3) show ?thesis by simp
  qed
qed

theorem handles_frame_witness:
  "(200, line_200 toy) \<in> set (notebook toy)
   \<and> (34 :: nat) < nxt (state_before 200 toy ''default'')
   \<and> env (state_before 200 toy ''default'') ''y'' \<noteq> Some 34
   \<and> env (state_before 200 toy ''default'') ''x'' = Some 34
   \<and> heap (snd (line_200 toy (state_before 200 toy ''default''))) 34
       = heap (state_before 200 toy ''default'') 34
   \<and> nxt (state_before 200 toy ''default'') \<le> nxt (snd (line_200 toy (state_before 200 toy ''default'')))"
proof -
  have m: "(200, line_200 toy) \<in> set (notebook toy)" by (simp add: notebook_def)
  have a: "(34 :: nat) < nxt (state_before 200 toy ''default'')" by (simp add: toy_before_200)
  have y: "200 = (200::nat) \<longrightarrow> env (state_before 200 toy ''default'') ''y'' \<noteq> Some 34"
    by (simp add: toy_before_200)
  have p: "line_200 toy (state_before 200 toy ''default'')
           = (fst (line_200 toy (state_before 200 toy ''default'')),
              snd (line_200 toy (state_before 200 toy ''default'')))"
    by simp
  from handles_frame[OF m p a y] m a y show ?thesis
    by (simp add: toy_before_200)
qed

text \<open>
  C6. The notebook handles no exception: it raises when and only when a library call
  raises, and then that exception, unchanged. For every library and every state of it:
  \<^item> a library call or an in-place update whose library function raises ends in that
    exception;
  \<^item> a run of the cells from a fresh kernel either raises nothing, and then every library
    call returned, or it ends with the exception of the library call that raised: that call
    is the last event, every call before it returned, and the exception is never one of the
    program's own;
  \<^item> when the library keeps the record of the exceptions it raises, the record is empty
    after a run that raised nothing, and after a run that raised it holds the one exception
    that the run ended with; keeping the record does not change how the run ends;
  \<^item> a statement that raises changes no stored object and binds no name, except that
    line 77 has bound \<open>Client\<close> when the import of \<open>progress\<close> raises.
\<close>

theorem exceptions_propagate:
  "(fst (f (libstate s)) = Inl e
      \<longrightarrow> fst (call en f s) = Inl (Raised e) \<and> fst (mutate en a f s) = Inl (Raised e))
   \<and> (case run (notebook lib) (init g) of
        (None, s') \<Rightarrow> trace s' = full_events
      | (Some x, s') \<Rightarrow>
          \<exists>e en. x = Raised e \<and> trace s' \<noteq> [] \<and> last (trace s') = Threw en e
                 \<and> clean (butlast (trace s')) \<and> (\<exists>u. full_events = map called (trace s') @ u))
   \<and> (case run (notebook (monitored lib)) (init (g, [])) of
        (None, s') \<Rightarrow> snd (libstate s') = []
      | (Some x, s') \<Rightarrow> \<exists>e. x = Raised e \<and> snd (libstate s') = [e])
   \<and> fst (run (notebook (monitored lib)) (init (g, []))) = fst (run (notebook lib) (init g))
   \<and> list_all (\<lambda>(l, p). \<forall>s x s'. p s = (Inl x, s') \<longrightarrow>
        (\<forall>a<nxt s. heap s' a = heap s a)
        \<and> (\<forall>n. l = 77 \<and> n = ''Client'' \<or> env s' n = env s n)) (notebook lib)"
proof -
  have "fst (f (libstate s)) = Inl e
      \<longrightarrow> fst (call en f s) = Inl (Raised e) \<and> fst (mutate en a f s) = Inl (Raised e)"
    by (cases "f (libstate s)") (simp add: call_def mutate_def)
  with run_outcome[of lib g] library_record[of lib g] monitored_outcome[of lib g]
    line_failure_keeps_state[of lib]
  show ?thesis by (intro conjI)
qed

theorem exceptions_propagate_witness:
  "fst (lib_persist toy_out_of_memory Other ''default'') = Inl ''MemoryError''
   \<and> fst (call Persist (lib_persist toy_out_of_memory Other) (init ''default'')) = Inl (Raised ''MemoryError'')
   \<and> fst (run (notebook toy) (init ''default'')) = None
   \<and> trace (snd (run (notebook toy) (init ''default''))) = full_events
   \<and> snd (libstate (snd (run (notebook (monitored toy)) (init (''default'', []))))) = []
   \<and> fst (run (notebook toy_out_of_memory) (init ''default'')) = Some (Raised ''MemoryError'')
   \<and> fst (run (notebook (monitored toy_out_of_memory)) (init (''default'', [])))
       = Some (Raised ''MemoryError'')
   \<and> snd (libstate (snd (run (notebook (monitored toy_out_of_memory)) (init (''default'', [])))))
       = [''MemoryError'']
   \<and> (\<exists>en. last (trace (snd (run (notebook toy_out_of_memory) (init ''default''))))
             = Threw en ''MemoryError'')
   \<and> fst (run (notebook toy_no_bottleneck) (init ''default'')) = Some (Raised ''ModuleNotFoundError'')
   \<and> snd (libstate (snd (run (notebook (monitored toy_no_bottleneck)) (init (''default'', [])))))
       = [''ModuleNotFoundError'']
   \<and> last (trace (snd (run (notebook toy_no_bottleneck) (init ''default''))))
       = Threw Import ''ModuleNotFoundError''"
proof -
  have p: "fst (lib_persist toy_out_of_memory Other (libstate (init ''default'' :: (tobj, string, string) state)))
           = Inl ''MemoryError''"
    by (simp add: toy_out_of_memory_def fails_def init_def)
  note t = exceptions_propagate[of "lib_persist toy_out_of_memory Other" "init ''default''"
      "''MemoryError''" Persist 0 toy "''default''"]
  note o = exceptions_propagate[of "lib_persist toy_out_of_memory Other" "init ''default''"
      "''MemoryError''" Persist 0 toy_out_of_memory "''default''"]
  from o p have 0: "fst (call Persist (lib_persist toy_out_of_memory Other) (init ''default'')) = Inl (Raised ''MemoryError'')"
    by simp
  have 1: "trace (snd (run (notebook toy) (init ''default''))) = full_events"
    using t toy_run by (simp add: case_prod_unfold)
  from t toy_run have m: "fst (run (notebook (monitored toy)) (init (''default'', []))) = None"
    by simp
  with t have 2: "snd (libstate (snd (run (notebook (monitored toy)) (init (''default'', []))))) = []"
    by (simp add: case_prod_unfold)
  from o toy_out_of_memory_run
  have n: "fst (run (notebook (monitored toy_out_of_memory)) (init (''default'', [])))
       = Some (Raised ''MemoryError'')"
    by simp
  with o have 3: "snd (libstate (snd (run (notebook (monitored toy_out_of_memory)) (init (''default'', [])))))
       = [''MemoryError'']"
    by (auto simp: case_prod_unfold)
  have 4: "\<exists>en. last (trace (snd (run (notebook toy_out_of_memory) (init ''default''))))
             = Threw en ''MemoryError''"
    using o toy_out_of_memory_run by (auto simp: case_prod_unfold)
  note q = exceptions_propagate[of "lib_persist toy_out_of_memory Other" "init ''default''"
      "''MemoryError''" Persist 0 toy_no_bottleneck "''default''"]
  from q toy_no_bottleneck_run(1)
  have "fst (run (notebook (monitored toy_no_bottleneck)) (init (''default'', [])))
       = Some (Raised ''ModuleNotFoundError'')"
    by simp
  with q have 5: "snd (libstate (snd (run (notebook (monitored toy_no_bottleneck)) (init (''default'', [])))))
       = [''ModuleNotFoundError'']"
    by (auto simp: case_prod_unfold)
  have 6: "last (trace (snd (run (notebook toy_no_bottleneck) (init ''default''))))
       = Threw Import ''ModuleNotFoundError''"
    by (simp add: toy_defs toy_no_bottleneck_def)
  from p 0 1 2 3 4 5 6 n toy_run toy_out_of_memory_run toy_no_bottleneck_run(1) show ?thesis
    by (simp add: init_def)
qed

text \<open>
  C9. As stated the claim fails: the masking \<^verbatim>\<open>corr.where(corr < 1)\<close> of line 205 comes
  after the visualization of line 119 and after the \<^verbatim>\<open>persist\<close> of line 128, and so do
  the other transformations of lines 186 to 205.
\<close>

theorem masking_after_visualize:
  "\<not> all_before is_masking is_visualize (trace (snd (run (notebook toy) (init ''default''))))
   \<and> \<not> all_before is_transformation is_persist (trace (snd (run (notebook toy) (init ''default''))))"
  by (simp add: toy_full_trace full_events_def event_kinds)

text \<open>
  C9, amended. In every run, for every library, the events are a first part of one fixed
  sequence, and all of it when nothing raises. In that order: the dataset is opened before
  any transformation, and every transformation comes after the open; the
  resample-aggregate steps and the arithmetic that define \<open>t_range\<close> (resample, max, min,
  subtraction, mean) come one after the other and before the visualization, which comes
  after the mean; the visualization comes before \<^verbatim>\<open>persist\<close>, which comes after it; no
  \<^verbatim>\<open>persist\<close> comes before the open or before these steps; and the roll, the
  rechunking, the coordinate assignment, the correlation and the masking of lines 186 to
  205 all come after \<^verbatim>\<open>persist\<close>.
\<close>

theorem notebook_order:
  "(\<exists>u. full_events = map called (trace (snd (run (notebook lib) (init g)))) @ u)
   \<and> (fst (run (notebook lib) (init g)) = None
        \<longrightarrow> trace (snd (run (notebook lib) (init g))) = full_events)
   \<and> all_before is_open is_transformation (trace (snd (run (notebook lib) (init g))))
   \<and> follows is_open is_transformation (trace (snd (run (notebook lib) (init g))))
   \<and> all_before is_aggregate is_visualize (trace (snd (run (notebook lib) (init g))))
   \<and> follows (is_entry Resample) (is_entry Max_reduce) (trace (snd (run (notebook lib) (init g))))
   \<and> follows (is_entry Max_reduce) (is_entry Min_reduce) (trace (snd (run (notebook lib) (init g))))
   \<and> follows (is_entry Min_reduce) (is_entry Subtract) (trace (snd (run (notebook lib) (init g))))
   \<and> follows (is_entry Subtract) (is_entry Mean_reduce) (trace (snd (run (notebook lib) (init g))))
   \<and> follows (is_entry Mean_reduce) is_visualize (trace (snd (run (notebook lib) (init g))))
   \<and> all_before is_visualize is_persist (trace (snd (run (notebook lib) (init g))))
   \<and> follows is_visualize is_persist (trace (snd (run (notebook lib) (init g))))
   \<and> all_before is_open is_persist (trace (snd (run (notebook lib) (init g))))
   \<and> all_before is_aggregate is_persist (trace (snd (run (notebook lib) (init g))))
   \<and> all_before is_persist is_later (trace (snd (run (notebook lib) (init g))))
   \<and> follows is_persist is_later (trace (snd (run (notebook lib) (init g))))"
  by (intro conjI impI trace_prefix full_trace_if_returns order_in_trace follows_in_trace)
     (simp_all add: event_kinds is_entry_def is_later_def follows_def entry_of_called full_events_def)

theorem notebook_order_witness:
  "fst (run (notebook toy) (init ''default'')) = None
   \<and> trace (snd (run (notebook toy) (init ''default''))) = full_events
   \<and> is_open (trace (snd (run (notebook toy) (init ''default''))) ! 9)
   \<and> is_aggregate (trace (snd (run (notebook toy) (init ''default''))) ! 15)
   \<and> is_visualize (trace (snd (run (notebook toy) (init ''default''))) ! 23)
   \<and> is_persist (trace (snd (run (notebook toy) (init ''default''))) ! 25)
   \<and> is_later (trace (snd (run (notebook toy) (init ''default''))) ! 31)
   \<and> is_masking (trace (snd (run (notebook toy) (init ''default''))) ! 42)
   \<and> all_before is_aggregate is_visualize (trace (snd (run (notebook toy) (init ''default''))))
   \<and> all_before is_visualize is_persist (trace (snd (run (notebook toy) (init ''default''))))
   \<and> all_before is_persist is_later (trace (snd (run (notebook toy) (init ''default''))))
   \<and> follows is_persist is_later (trace (snd (run (notebook toy) (init ''default''))))
   \<and> follows is_open is_transformation (trace (snd (run (notebook toy) (init ''default''))))"
proof -
  from notebook_order[of toy "''default''"] toy_run
  have t: "trace (snd (run (notebook toy) (init ''default''))) = full_events"
    by simp
  from notebook_order[of toy "''default''"] toy_run show ?thesis
    unfolding t by (simp add: full_events_def event_kinds is_later_def)
qed

text \<open>
  C2. As stated the claim fails: the correlation is not a direct call of a library routine.
  Line 204 calls \<^verbatim>\<open>spearman_correlation\<close>, a function that the notebook defines.
\<close>

theorem correlation_not_a_library_call:
  "Entered ''spearman_correlation'' \<in> set (trace (snd (run (notebook toy) (init ''default''))))
   \<and> \<not> list_all is_library (trace (snd (run (notebook toy) (init ''default''))))"
  by (simp add: toy_full_trace full_events_def is_library_def)

text \<open>
  C2, amended. In every run, for every library, every operation is a call of a library entry
  point except the entry into the notebook's own \<^verbatim>\<open>spearman_correlation\<close>, which is one
  call of \<^verbatim>\<open>xarray.apply_ufunc\<close> on the notebook's own \<^verbatim>\<open>spearman_correlation_gufunc\<close>.
\<close>

theorem correlation_is_own_function:
  "list_all (\<lambda>ev. is_library ev \<or> ev = Entered ''spearman_correlation'')
     (trace (snd (run (notebook lib) (init g))))
   \<and> spearman_correlation lib x y d =
       pbind (enter ''spearman_correlation'') (\<lambda>_.
       pbind (load ''xr'') (\<lambda>m.
         call Apply_ufunc (lib_apply_ufunc lib (snd m)
                             (spearman_correlation_gufunc_fl (lib_numerics lib)) (snd x) (snd y)
                             [[d], [d]] ''parallelized'' [''float''])))"
proof -
  from trace_prefix[of lib g] obtain u where
    u: "full_events = map called (trace (snd (run (notebook lib) (init g)))) @ u" ..
  have "list_all (\<lambda>ev. is_library ev \<or> ev = Entered ''spearman_correlation'')
          (map called (trace (snd (run (notebook lib) (init g)))) @ u)"
    unfolding u[symmetric] by (simp add: full_events_def is_library_def)
  then have "list_all (\<lambda>ev. is_library ev \<or> ev = Entered ''spearman_correlation'')
          (map called (trace (snd (run (notebook lib) (init g)))))"
    by simp
  then have "list_all (\<lambda>ev. is_library ev \<or> ev = Entered ''spearman_correlation'')
          (trace (snd (run (notebook lib) (init g))))"
    by (simp add: list_all_iff own_or_library_called)
  then show ?thesis by (simp add: spearman_correlation_def)
qed

theorem correlation_is_own_function_witness:
  "list_all (\<lambda>ev. is_library ev \<or> ev = Entered ''spearman_correlation'')
     (trace (snd (run (notebook toy) (init ''default''))))
   \<and> trace (snd (run (notebook toy) (init ''default''))) ! 39 = Entered ''spearman_correlation''
   \<and> trace (snd (run (notebook toy) (init ''default''))) ! 40 = Returned Apply_ufunc
   \<and> spearman_correlation_gufunc_fl (lib_numerics toy) (asarray [[1, 2, 4], [3, 1, 2]]) (asarray [[4, 1, 2], [2, 3, 1]])
       = Inr [Fin (- 1 / 2), Fin (- 1 / 2)]
   \<and> heap (state_before 206 toy ''default'') 40 = Some (Res [Fin (- 1 / 2), Fin (- 1 / 2)])"
proof -
  from correlation_is_own_function[of toy "''default''"]
  have "list_all (\<lambda>ev. is_library ev \<or> ev = Entered ''spearman_correlation'')
     (trace (snd (run (notebook toy) (init ''default''))))"
    by (rule conjunct1)
  then show ?thesis
    by (simp add: toy_full_trace full_events_def toy_gufunc toy_corr) (simp add: toy_def toy_gufunc)
qed

end
